theory Spec2Isabelle
  imports Complex_Main "HOL-Library.Char_ord"
begin

section \<open>Python strings\<close>

text \<open>
  Source text is a list of characters. A character stands for a code point in the range
  0..255, and the character classes below are those of Python's \<^verbatim>\<open>str\<close> methods and of
  the \<^verbatim>\<open>re\<close> module (Unicode mode) on that range. Confidence values are Python floats;
  they are modelled as real numbers with exact arithmetic.
\<close>

definition nl :: char where
  "nl = CHR 0x0A"

definition isspace :: "char \<Rightarrow> bool" where
  \<comment> \<open>\<^verbatim>\<open>str.isspace\<close>, also the class \<^verbatim>\<open>\s\<close> and what \<^verbatim>\<open>strip()\<close> removes\<close>
  "isspace c = ((of_char c :: nat) \<in> set [9, 10, 11, 12, 13, 28, 29, 30, 31, 32, 133, 160])"

definition isdigit :: "char \<Rightarrow> bool" where
  \<comment> \<open>the class \<^verbatim>\<open>\d\<close>\<close>
  "isdigit c = (CHR ''0'' \<le> c \<and> c \<le> CHR ''9'')"

definition isupper_ascii :: "char \<Rightarrow> bool" where
  "isupper_ascii c = (CHR ''A'' \<le> c \<and> c \<le> CHR ''Z'')"

definition islower_ascii :: "char \<Rightarrow> bool" where
  "islower_ascii c = (CHR ''a'' \<le> c \<and> c \<le> CHR ''z'')"

definition isword :: "char \<Rightarrow> bool" where
  \<comment> \<open>the class \<^verbatim>\<open>\w\<close>: alphanumeric code points and the underscore\<close>
  "isword c = (isupper_ascii c \<or> islower_ascii c \<or> isdigit c \<or> c = CHR ''_'' \<or>
     (of_char c :: nat) \<in> set [170, 178, 179, 181, 185, 186, 188, 189, 190] \<or>
     (192 \<le> (of_char c :: nat) \<and> (of_char c :: nat) \<noteq> 215 \<and> (of_char c :: nat) \<noteq> 247))"

definition lower_char :: "char \<Rightarrow> char" where
  "lower_char c = (let n = (of_char c :: nat) in
     if (65 \<le> n \<and> n \<le> 90) \<or> (192 \<le> n \<and> n \<le> 222 \<and> n \<noteq> 215)
     then char_of (n + 32) else c)"

definition upper_char :: "char \<Rightarrow> char" where
  \<comment> \<open>on the code points whose upper case is again below 256\<close>
  "upper_char c = (let n = (of_char c :: nat) in
     if (97 \<le> n \<and> n \<le> 122) \<or> (224 \<le> n \<and> n \<le> 254 \<and> n \<noteq> 247)
     then char_of (n - 32) else c)"

definition lower :: "string \<Rightarrow> string" where
  "lower s = map lower_char s"

definition capitalize :: "string \<Rightarrow> string" where
  "capitalize s = (case s of [] \<Rightarrow> [] | x # xs \<Rightarrow> upper_char x # lower xs)"

definition lstrip :: "string \<Rightarrow> string" where
  "lstrip s = dropWhile isspace s"

definition rstrip :: "string \<Rightarrow> string" where
  "rstrip s = rev (dropWhile isspace (rev s))"

definition strip :: "string \<Rightarrow> string" where
  "strip s = lstrip (rstrip s)"

fun startswith :: "string \<Rightarrow> string \<Rightarrow> bool" where
  \<comment> \<open>\<^verbatim>\<open>s.startswith(p)\<close> is \<open>startswith p s\<close>\<close>
  "startswith [] s = True"
| "startswith (x # xs) [] = False"
| "startswith (x # xs) (y # ys) = (x = y \<and> startswith xs ys)"

definition endswith :: "string \<Rightarrow> string \<Rightarrow> bool" where
  "endswith p s = startswith (rev p) (rev s)"

fun contains :: "string \<Rightarrow> string \<Rightarrow> bool" where
  \<comment> \<open>\<^verbatim>\<open>p in s\<close> is \<open>contains p s\<close>\<close>
  "contains p [] = (p = [])"
| "contains p (y # ys) = (startswith p (y # ys) \<or> contains p ys)"

definition count_char :: "char \<Rightarrow> string \<Rightarrow> int" where
  \<comment> \<open>\<^verbatim>\<open>s.count(c)\<close> for a one-character \<^verbatim>\<open>c\<close>\<close>
  "count_char c s = int (length (filter (\<lambda>x. x = c) s))"

fun split_char :: "char \<Rightarrow> string \<Rightarrow> string list" where
  \<comment> \<open>\<^verbatim>\<open>s.split(c)\<close> for a one-character separator: never the empty list\<close>
  "split_char c [] = [[]]"
| "split_char c (x # xs) =
     (if x = c then [] # split_char c xs
      else (case split_char c xs of [] \<Rightarrow> [[x]] | w # ws \<Rightarrow> (x # w) # ws))"

definition split_lines :: "string \<Rightarrow> string list" where
  \<comment> \<open>\<^verbatim>\<open>code.split('\n')\<close>\<close>
  "split_lines s = split_char nl s"

fun join :: "string \<Rightarrow> string list \<Rightarrow> string" where
  \<comment> \<open>\<^verbatim>\<open>sep.join(xs)\<close>\<close>
  "join sep [] = []"
| "join sep [x] = x"
| "join sep (x # y # ys) = x @ sep @ join sep (y # ys)"

fun split_ws :: "string \<Rightarrow> string list" where
  \<comment> \<open>\<^verbatim>\<open>s.split()\<close>: the maximal runs of characters that are not white space\<close>
  "split_ws [] = []"
| "split_ws (x # xs) =
     (if isspace x then split_ws xs
      else (case xs of
              [] \<Rightarrow> [[x]]
            | y # ys \<Rightarrow> if isspace y then [x] # split_ws xs
                       else (case split_ws xs of [] \<Rightarrow> [[x]] | w # ws \<Rightarrow> (x # w) # ws)))"

fun split_first :: "string \<Rightarrow> string \<Rightarrow> string list" where
  \<comment> \<open>\<^verbatim>\<open>s.split(sep, 1)\<close> for a non-empty separator\<close>
  "split_first sep [] = [[]]"
| "split_first sep (x # xs) =
     (if startswith sep (x # xs) then [[], drop (length sep) (x # xs)]
      else (case split_first sep xs of
              [a, b] \<Rightarrow> [x # a, b]
            | _ \<Rightarrow> [x # xs]))"

fun digits :: "nat \<Rightarrow> string" where
  "digits n = (if n < 10 then [char_of (48 + n)] else digits (n div 10) @ [char_of (48 + n mod 10)])"

definition str_int :: "int \<Rightarrow> string" where
  \<comment> \<open>\<^verbatim>\<open>str(n)\<close> of a Python int\<close>
  "str_int i = (if i < 0 then CHR ''-'' # digits (nat (- i)) else digits (nat i))"

definition enumerate1 :: "'a list \<Rightarrow> (nat \<times> 'a) list" where
  \<comment> \<open>\<^verbatim>\<open>enumerate(xs, 1)\<close>\<close>
  "enumerate1 xs = zip [1 ..< Suc (length xs)] xs"

section \<open>Regular expressions\<close>

text \<open>
  The patterns of the source are values of the datatype \<open>re\<close>; \<open>m\<close> is a backtracking
  matcher in continuation-passing style with the priorities of Python's \<^verbatim>\<open>re\<close>: the left
  alternative first, a greedy repetition tries one more iteration first, a lazy one tries to
  stop first. A position is the character before it (if any) and the text that remains.
  An iteration of a repetition has to consume a character (every repeated pattern of
  the source does); the fuel of a repetition is the length of the remaining text.
\<close>

type_synonym pos = "char option \<times> string"
type_synonym caps = "nat \<Rightarrow> string option"
type_synonym kont = "pos \<Rightarrow> caps \<Rightarrow> (pos \<times> caps) option"

datatype re =
    Sym "char \<Rightarrow> bool"
  | Eps
  | Seq re re
  | Alt re re
  | Star re
  | LazyStar re
  | Group nat re
  | Look re
  | Bol
  | BolM
  | Eol
  | EolM
  | EndZ
  | WordB

primrec star_greedy :: "(kont \<Rightarrow> kont) \<Rightarrow> nat \<Rightarrow> kont \<Rightarrow> kont" where
  "star_greedy f 0 k p c = k p c"
| "star_greedy f (Suc n) k p c =
     (case f (\<lambda>p' c'. if length (snd p') < length (snd p) then star_greedy f n k p' c' else None) p c of
        Some r \<Rightarrow> Some r
      | None \<Rightarrow> k p c)"

primrec star_lazy :: "(kont \<Rightarrow> kont) \<Rightarrow> nat \<Rightarrow> kont \<Rightarrow> kont" where
  "star_lazy f 0 k p c = k p c"
| "star_lazy f (Suc n) k p c =
     (case k p c of
        Some r \<Rightarrow> Some r
      | None \<Rightarrow> f (\<lambda>p' c'. if length (snd p') < length (snd p) then star_lazy f n k p' c' else None) p c)"

definition word_boundary :: "pos \<Rightarrow> bool" where
  "word_boundary p =
     ((case fst p of None \<Rightarrow> False | Some a \<Rightarrow> isword a) \<noteq>
      (case snd p of [] \<Rightarrow> False | b # _ \<Rightarrow> isword b))"

primrec m :: "re \<Rightarrow> kont \<Rightarrow> kont" where
  "m (Sym P) k p c = (case snd p of [] \<Rightarrow> None | x # xs \<Rightarrow> if P x then k (Some x, xs) c else None)"
| "m Eps k p c = k p c"
| "m (Seq a b) k p c = m a (m b k) p c"
| "m (Alt a b) k p c = (case m a k p c of Some r \<Rightarrow> Some r | None \<Rightarrow> m b k p c)"
| "m (Star a) k p c = star_greedy (m a) (length (snd p)) k p c"
| "m (LazyStar a) k p c = star_lazy (m a) (length (snd p)) k p c"
| "m (Group n a) k p c =
     m a (\<lambda>p' c'. k p' (c'(n \<mapsto> take (length (snd p) - length (snd p')) (snd p)))) p c"
| "m (Look a) k p c =
     (case m a (\<lambda>p' c'. Some (p', c')) p c of None \<Rightarrow> None | Some r \<Rightarrow> k p (snd r))"
| "m Bol k p c = (if fst p = None then k p c else None)"
| "m BolM k p c = (if fst p = None \<or> fst p = Some nl then k p c else None)"
| "m Eol k p c = (if snd p = [] \<or> snd p = [nl] then k p c else None)"
| "m EolM k p c = (if snd p = [] \<or> take 1 (snd p) = [nl] then k p c else None)"
| "m EndZ k p c = (if snd p = [] then k p c else None)"
| "m WordB k p c = (if word_boundary p then k p c else None)"

primrec ignorecase :: "re \<Rightarrow> re" where
  \<comment> \<open>the flag \<^verbatim>\<open>re.IGNORECASE\<close>\<close>
  "ignorecase (Sym P) = Sym (\<lambda>x. P x \<or> P (lower_char x) \<or> P (upper_char x))"
| "ignorecase Eps = Eps"
| "ignorecase (Seq a b) = Seq (ignorecase a) (ignorecase b)"
| "ignorecase (Alt a b) = Alt (ignorecase a) (ignorecase b)"
| "ignorecase (Star a) = Star (ignorecase a)"
| "ignorecase (LazyStar a) = LazyStar (ignorecase a)"
| "ignorecase (Group n a) = Group n (ignorecase a)"
| "ignorecase (Look a) = Look (ignorecase a)"
| "ignorecase Bol = Bol"
| "ignorecase BolM = BolM"
| "ignorecase Eol = Eol"
| "ignorecase EolM = EolM"
| "ignorecase EndZ = EndZ"
| "ignorecase WordB = WordB"

definition chr :: "char \<Rightarrow> re" where
  "chr a = Sym (\<lambda>x. x = a)"

definition lit :: "string \<Rightarrow> re" where
  "lit s = foldr (\<lambda>a r. Seq (chr a) r) s Eps"

fun seqs :: "re list \<Rightarrow> re" where
  "seqs [] = Eps"
| "seqs [r] = r"
| "seqs (r # rs) = Seq r (seqs rs)"

definition plus :: "re \<Rightarrow> re" where
  "plus r = Seq r (Star r)"

definition opt :: "re \<Rightarrow> re" where
  "opt r = Alt r Eps"

definition ws :: re where
  "ws = Sym isspace"

definition wd :: re where
  "wd = Sym isword"

definition dgt :: re where
  "dgt = Sym isdigit"

definition dot :: re where
  \<comment> \<open>\<^verbatim>\<open>.\<close> without \<^verbatim>\<open>re.DOTALL\<close>\<close>
  "dot = Sym (\<lambda>x. x \<noteq> nl)"

definition dotall :: re where
  \<comment> \<open>\<^verbatim>\<open>.\<close> under \<^verbatim>\<open>re.DOTALL\<close>\<close>
  "dotall = Sym (\<lambda>x. True)"

definition noneof :: "string \<Rightarrow> re" where
  "noneof s = Sym (\<lambda>x. x \<notin> set s)"

definition re_match :: "re \<Rightarrow> pos \<Rightarrow> (nat \<times> caps) option" where
  \<comment> \<open>a match at this position: the number of characters it covers, and its groups\<close>
  "re_match r p =
     (case m r (\<lambda>p' c'. Some (p', c')) p Map.empty of
        None \<Rightarrow> None
      | Some r' \<Rightarrow> Some (length (snd p) - length (snd (fst r')), snd r'))"

fun re_search_from :: "re \<Rightarrow> char option \<Rightarrow> string \<Rightarrow> (string \<times> caps) option" where
  "re_search_from r prev s =
     (case re_match r (prev, s) of
        Some nc \<Rightarrow> Some (take (fst nc) s, snd nc)
      | None \<Rightarrow> (case s of [] \<Rightarrow> None | x # xs \<Rightarrow> re_search_from r (Some x) xs))"

definition re_search :: "re \<Rightarrow> string \<Rightarrow> (string \<times> caps) option" where
  \<comment> \<open>\<^verbatim>\<open>re.search\<close>: the leftmost match, as (group 0, groups)\<close>
  "re_search r s = re_search_from r None s"

definition found :: "re \<Rightarrow> string \<Rightarrow> bool" where
  \<comment> \<open>the truth value of \<^verbatim>\<open>re.search(r, s)\<close>\<close>
  "found r s = (re_search r s \<noteq> None)"

definition group :: "caps \<Rightarrow> nat \<Rightarrow> string" where
  \<comment> \<open>the text of a group; a group that took no part in the match gives the empty text\<close>
  "group c n = (case c n of None \<Rightarrow> [] | Some s \<Rightarrow> s)"

fun last_char :: "char option \<Rightarrow> string \<Rightarrow> char option" where
  "last_char prev [] = prev"
| "last_char prev (x # xs) = last_char (Some x) xs"

function re_sub_from :: "re \<Rightarrow> (string \<Rightarrow> caps \<Rightarrow> string) \<Rightarrow> char option \<Rightarrow> string \<Rightarrow> string" where
  "re_sub_from r f prev s =
     (case re_match r (prev, s) of
        Some nc \<Rightarrow>
          (if 0 < fst nc \<and> fst nc \<le> length s
           then f (take (fst nc) s) (snd nc) @
                re_sub_from r f (last_char prev (take (fst nc) s)) (drop (fst nc) s)
           else f [] (snd nc) @
                (case s of [] \<Rightarrow> [] | x # xs \<Rightarrow> x # re_sub_from r f (Some x) xs))
      | None \<Rightarrow> (case s of [] \<Rightarrow> [] | x # xs \<Rightarrow> x # re_sub_from r f (Some x) xs))"
  by pat_completeness auto
termination
  by (relation "measure (\<lambda>(r, f, prev, s). length s)") auto

declare re_sub_from.simps [simp del]

definition re_sub_fun :: "re \<Rightarrow> (string \<Rightarrow> caps \<Rightarrow> string) \<Rightarrow> string \<Rightarrow> string" where
  \<comment> \<open>\<^verbatim>\<open>re.sub\<close> with a replacement function of the match\<close>
  "re_sub_fun r f s = re_sub_from r f None s"

datatype tmpl = T string | G nat

definition expand :: "tmpl list \<Rightarrow> string \<Rightarrow> caps \<Rightarrow> string" where
  \<comment> \<open>a replacement template: literal text and group references (group 0 is the match)\<close>
  "expand t whole c =
     concat (map (\<lambda>piece. case piece of T s \<Rightarrow> s | G n \<Rightarrow> if n = 0 then whole else group c n) t)"

definition re_sub :: "re \<Rightarrow> tmpl list \<Rightarrow> string \<Rightarrow> string" where
  \<comment> \<open>\<^verbatim>\<open>re.sub(pattern, template, s)\<close>\<close>
  "re_sub r t s = re_sub_fun r (expand t) s"

section \<open>The validator (postprocessing/validator.py)\<close>

datatype ValidationLevel = ERROR | WARNING | INFO

record issue =
  message :: string
  line :: "nat option"
  level :: ValidationLevel

record ValidationResult =
  is_valid :: bool
  errors :: "issue list"
  warnings :: "issue list"
  info :: "issue list"
  suggestions :: "string list"
  confidence :: real

definition new_result :: ValidationResult where
  \<comment> \<open>\<^verbatim>\<open>ValidationResult.__init__\<close>\<close>
  "new_result = \<lparr>is_valid = True, errors = [], warnings = [], info = [], suggestions = [],
     confidence = 1.0\<rparr>"

definition add_issue :: "ValidationLevel \<Rightarrow> string \<Rightarrow> nat option \<Rightarrow> ValidationResult \<Rightarrow> ValidationResult" where
  "add_issue lv msg txt r =
     (let i = \<lparr>message = msg, line = txt, level = lv\<rparr> in
      case lv of
        ERROR \<Rightarrow> r\<lparr>errors := errors r @ [i], is_valid := False,
                    confidence := max 0.0 (confidence r - 0.2)\<rparr>
      | WARNING \<Rightarrow> r\<lparr>warnings := warnings r @ [i],
                      confidence := max 0.0 (confidence r - 0.1)\<rparr>
      | INFO \<Rightarrow> r\<lparr>info := info r @ [i]\<rparr>)"

definition add_suggestion :: "string \<Rightarrow> ValidationResult \<Rightarrow> ValidationResult" where
  "add_suggestion s r = r\<lparr>suggestions := suggestions r @ [s]\<rparr>"

definition non_empty_lines :: "string list \<Rightarrow> string list" where
  \<comment> \<open>\<^verbatim>\<open>[line for line in lines if line.strip()]\<close>\<close>
  "non_empty_lines ls = filter (\<lambda>l. strip l \<noteq> []) ls"

definition artifact_patterns :: "string list" where
  "artifact_patterns = [''here is the'', ''the following'', ''as you can see'', ''note that'',
     ''please note'', ''translation:'', ''generated code:'']"

definition re_code_fence :: re where
  \<comment> \<open>three backquotes, then \<^verbatim>\<open>\w*\<close>\<close>
  "re_code_fence = Seq (lit [CHR 0x60, CHR 0x60, CHR 0x60]) (Star wd)"

definition validate_basic_structure :: "string \<Rightarrow> string \<Rightarrow> ValidationResult \<Rightarrow> ValidationResult" where
  "validate_basic_structure code target_language result =
     (let lines = split_lines code in
      if non_empty_lines lines = []
      then add_issue ERROR ''Code contains no meaningful content'' None result
      else
        let result1 =
              fold (\<lambda>(i, txt) r.
                      let line_lower = lower txt in
                      fold (\<lambda>pattern r'.
                              if found (lit pattern) line_lower
                              then add_issue WARNING ''Possible ML artifact detected'' (Some i) r'
                              else r')
                           artifact_patterns r)
                   (enumerate1 lines) result
        in if found re_code_fence code
           then add_issue WARNING ''Code contains markdown formatting markers'' None result1
           else result1)"

text \<open>
  \<^verbatim>\<open>ast.parse\<close> is Python's own parser. It is a parameter \<open>py_syntax\<close> of the model, with
  the contract of the specification: the text either parses (\<open>None\<close>) or is rejected
  with a \<^verbatim>\<open>SyntaxError\<close> that carries a message and, possibly, a line number.
\<close>

type_synonym py_parser = "string \<Rightarrow> (string \<times> nat option) option"

definition validate_python :: "py_parser \<Rightarrow> string \<Rightarrow> ValidationResult \<Rightarrow> ValidationResult" where
  "validate_python py_syntax code result =
     (let result1 =
            (case py_syntax code of
               None \<Rightarrow> result
             | Some e \<Rightarrow> add_issue ERROR (''Python syntax error: '' @ fst e) (snd e) result)
      in fold (\<lambda>(i, txt) r.
                 let r1 = (if endswith '';'' (strip txt) \<and> \<not> endswith [CHR 0x27, CHR '';''] (strip txt)
                           then add_issue INFO ''Unnecessary semicolon detected'' (Some i) r else r);
                     r2 = (if contains ''{'' txt \<or> contains ''}'' txt
                           then add_issue WARNING ''Braces detected in Python code'' (Some i) r1 else r1)
                 in if startswith '' '' txt \<and> \<not> startswith ''    '' txt \<and> \<not> startswith ''        '' txt
                    then (if strip txt \<noteq> []
                          then add_issue WARNING ''Inconsistent indentation (should be 4 spaces)'' (Some i) r2
                          else r2)
                    else r2)
              (enumerate1 (split_lines code)) result1)"

definition c_keywords :: "string list" where
  "c_keywords = [''if'', ''for'', ''while'', ''switch'', ''else'', ''do'', ''try'', ''catch'', ''finally'']"

definition re_assignment :: re where
  \<comment> \<open>\<^verbatim>\<open>\w+\s*=\<close>\<close>
  "re_assignment = seqs [plus wd, Star ws, chr CHR ''='']"

definition re_function_call :: re where
  \<comment> \<open>\<^verbatim>\<open>\w+\(.*\)\<close>\<close>
  "re_function_call = seqs [plus wd, chr CHR ''('', Star dot, chr CHR '')'']"

definition re_return :: re where
  \<comment> \<open>\<^verbatim>\<open>return\s+\<close>\<close>
  "re_return = seqs [lit ''return'', plus ws]"

definition re_break :: re where
  \<comment> \<open>\<^verbatim>\<open>break\b\<close>\<close>
  "re_break = seqs [lit ''break'', WordB]"

definition re_continue :: re where
  \<comment> \<open>\<^verbatim>\<open>continue\b\<close>\<close>
  "re_continue = seqs [lit ''continue'', WordB]"

definition missing_semicolon :: "string \<Rightarrow> bool" where
  \<comment> \<open>the test of one line in \<^verbatim>\<open>_validate_c_like\<close>\<close>
  "missing_semicolon txt =
     (let stripped = strip txt in
      stripped \<noteq> [] \<and>
      \<not> startswith ''//'' stripped \<and>
      \<not> startswith ''/*'' stripped \<and>
      \<not> endswith ''{'' stripped \<and>
      \<not> endswith ''}'' stripped \<and>
      \<not> endswith '':'' stripped \<and>
      \<not> list_ex (\<lambda>keyword. contains keyword stripped) c_keywords \<and>
      \<not> endswith '';'' stripped \<and>
      (found re_assignment stripped \<or> found re_function_call stripped \<or>
       found re_return stripped \<or> found re_break stripped \<or> found re_continue stripped))"

definition validate_c_like :: "string \<Rightarrow> string \<Rightarrow> ValidationResult \<Rightarrow> ValidationResult" where
  "validate_c_like code target_language result =
     (let (brace_count, paren_count, result1) =
            fold (\<lambda>(i, txt) (bc, pc, r).
                    (bc + (count_char CHR ''{'' txt - count_char CHR ''}'' txt),
                     pc + (count_char CHR ''('' txt - count_char CHR '')'' txt),
                     if missing_semicolon txt
                     then add_issue WARNING ''Possible missing semicolon'' (Some i) r else r))
                 (enumerate1 (split_lines code)) (0, 0, result);
          result2 = (if brace_count \<noteq> 0
                     then add_issue ERROR (''Unmatched braces: '' @ str_int brace_count) None result1
                     else result1)
      in if paren_count \<noteq> 0
         then add_issue WARNING (''Unmatched parentheses: '' @ str_int paren_count) None result2
         else result2)"

definition valid_instructions :: "string list" where
  "valid_instructions =
     [''mov'', ''add'', ''sub'', ''mul'', ''div'', ''jmp'', ''call'', ''push'', ''pop'', ''ret'',
      ''cmp'', ''test'', ''je'', ''jne'', ''jg'', ''jl'', ''jge'', ''jle'', ''inc'', ''dec'',
      ''and'', ''or'', ''xor'', ''not'', ''shl'', ''shr'', ''nop'', ''int'', ''hlt'']"

definition validate_assembly :: "string \<Rightarrow> ValidationResult \<Rightarrow> ValidationResult" where
  \<comment> \<open>\<^verbatim>\<open>parts[0]\<close> of \<^verbatim>\<open>stripped.split(None, 1)\<close> is the first word of \<^verbatim>\<open>stripped.split()\<close>\<close>
  "validate_assembly code result =
     fold (\<lambda>(i, txt) r.
             let stripped = lower (strip txt) in
             if stripped = [] \<or> startswith '';'' stripped then r
             else (case split_ws stripped of
                     [] \<Rightarrow> r
                   | instruction # _ \<Rightarrow>
                       if endswith '':'' instruction then r
                       else if instruction \<notin> set valid_instructions
                       then add_issue WARNING (''Unknown assembly instruction: '' @ instruction) (Some i) r
                       else r))
          (enumerate1 (split_lines code)) result"

text \<open>
  The source information is the dictionary of a structural model: the names of its
  functions and of its classes, when it has these keys. No dictionary, or an empty one, is
  \<open>None\<close>.
\<close>

record source_info =
  si_functions :: "string list option"
  si_classes :: "string list option"

definition validate_consistency :: "string \<Rightarrow> string \<Rightarrow> source_info \<Rightarrow> ValidationResult \<Rightarrow> ValidationResult" where
  "validate_consistency code target_language si result =
     (let result1 =
            (case si_functions si of
               None \<Rightarrow> result
             | Some source_functions \<Rightarrow>
                 fold (\<lambda>func_name r.
                         if \<not> contains func_name code
                         then add_issue WARNING
                                (''Function '' @ [CHR 0x27] @ func_name @ [CHR 0x27] @
                                 '' from source not found in translation'') None r
                         else r)
                      source_functions result)
      in case si_classes si of
           None \<Rightarrow> result1
         | Some source_classes \<Rightarrow>
             fold (\<lambda>class_name r.
                     if \<not> contains class_name code
                     then add_issue WARNING
                            (''Class '' @ [CHR 0x27] @ class_name @ [CHR 0x27] @
                             '' from source not found in translation'') None r
                     else r)
                  source_classes result1)"

definition re_comment_line :: re where
  \<comment> \<open>\<^verbatim>\<open>^\s*(#|//|/\*)\<close>\<close>
  "re_comment_line = seqs [Bol, Star ws, Group 1 (Alt (lit ''#'') (Alt (lit ''//'') (lit ''/*'')))]"

definition re_range_len :: re where
  \<comment> \<open>\<^verbatim>\<open>range\s*\(\s*len\s*\(\<close>\<close>
  "re_range_len = seqs [lit ''range'', Star ws, chr CHR ''('', Star ws, lit ''len'', Star ws, chr CHR ''('']"

definition re_for_range :: re where
  \<comment> \<open>\<^verbatim>\<open>for\s+\w+\s+in\s+range\s*\(\<close>\<close>
  "re_for_range = seqs [lit ''for'', plus ws, plus wd, plus ws, lit ''in'', plus ws, lit ''range'',
     Star ws, chr CHR ''('']"

definition assess_python_quality :: "string \<Rightarrow> ValidationResult \<Rightarrow> ValidationResult" where
  "assess_python_quality code result =
     (let result1 = (if found re_range_len code
                     then add_suggestion ''Consider using enumerate() instead of range(len())'' result
                     else result)
      in if found re_for_range code \<and> \<not> contains ''while'' code
         then add_suggestion ''Consider if a more Pythonic iteration method is available'' result1
         else result1)"

definition very_short :: "string \<Rightarrow> bool" where
  \<comment> \<open>\<^verbatim>\<open>len(non_empty_lines) == 1 and len(lines[0]) < 50\<close>\<close>
  "very_short code =
     (let lines = split_lines code in
      length (non_empty_lines lines) = 1 \<and> length (hd lines) < 50)"

definition high_repetition :: "string \<Rightarrow> bool" where
  \<comment> \<open>\<^verbatim>\<open>len(set(non_empty_lines)) < len(non_empty_lines) * 0.7\<close>\<close>
  "high_repetition code =
     (let ls = non_empty_lines (split_lines code) in
      real (card (set ls)) < real (length ls) * 0.7)"

definition assess_quality :: "string \<Rightarrow> string \<Rightarrow> ValidationResult \<Rightarrow> ValidationResult" where
  "assess_quality code target_language result =
     (let lines = split_lines code;
          result1 =
            (if very_short code
             then (let r = add_issue INFO ''Very short translation - may be incomplete'' None result
                   in r\<lparr>confidence := max 0.5 (confidence r - 0.1)\<rparr>)
             else result);
          comment_lines = length (filter (found re_comment_line) lines);
          result2 =
            (if comment_lines = 0 \<and> 10 < length (non_empty_lines lines)
             then add_suggestion ''Consider adding comments to explain the translation'' result1
             else result1);
          result3 =
            (if high_repetition code
             then (let r = add_issue WARNING ''High code repetition detected'' None result2
                   in r\<lparr>confidence := max 0.7 (confidence r - 0.1)\<rparr>)
             else result2)
      in if lower target_language = ''python'' then assess_python_quality code result3 else result3)"

definition validate :: "py_parser \<Rightarrow> string \<Rightarrow> string \<Rightarrow> source_info option \<Rightarrow> ValidationResult" where
  \<comment> \<open>\<^verbatim>\<open>CodeValidator.validate\<close>; the result is the record that \<^verbatim>\<open>to_dict\<close> copies\<close>
  "validate py_syntax code target_language si =
     (if code = [] \<or> strip code = []
      then add_issue ERROR ''Generated code is empty'' None new_result
      else
        let result1 = validate_basic_structure code target_language new_result;
            result2 =
              (if lower target_language = ''python'' then validate_python py_syntax code result1
               else if lower target_language \<in> set [''java'', ''javascript'']
               then validate_c_like code target_language result1
               else if lower target_language = ''assembly'' then validate_assembly code result1
               else result1);
            result3 =
              (case si of
                 None \<Rightarrow> result2
               | Some s \<Rightarrow> validate_consistency code target_language s result2)
        in assess_quality code target_language result3)"

section \<open>The translation model (models/base_model.py, models/codegen_model.py)\<close>

datatype py_error = RuntimeError string | ValueError string | IndexError

record model =
  model_name :: string
  last_confidence :: real
  is_initialized :: bool
  fallback_mode :: bool

definition set_confidence :: "real \<Rightarrow> model \<Rightarrow> model" where
  \<comment> \<open>\<^verbatim>\<open>self.last_confidence = max(0.0, min(1.0, confidence))\<close>\<close>
  "set_confidence c s = s\<lparr>last_confidence := max 0.0 (min 1.0 c)\<rparr>"

definition get_confidence :: "model \<Rightarrow> real" where
  "get_confidence s = last_confidence s"

definition init_fallback_mode :: "model \<Rightarrow> model" where
  "init_fallback_mode s = s\<lparr>fallback_mode := True, is_initialized := True\<rparr>"

definition new_model :: "bool \<Rightarrow> string \<Rightarrow> model" where
  \<comment> \<open>\<^verbatim>\<open>CodeGenModel.__init__\<close>; the flag is \<^verbatim>\<open>TRANSFORMERS_AVAILABLE\<close>. An absent attribute
      \<^verbatim>\<open>fallback_mode\<close> is the value \<open>False\<close>.\<close>
  "new_model transformers_available name =
     (let s = \<lparr>model_name = name, last_confidence = 0.0, is_initialized = False,
                fallback_mode = False\<rparr>
      in if \<not> transformers_available then init_fallback_mode s else s)"

definition load_model :: "bool \<Rightarrow> bool \<Rightarrow> model \<Rightarrow> model" where
  \<comment> \<open>\<^verbatim>\<open>load_model\<close>; the second flag says whether loading the tokenizer and the weights
      went through without an exception\<close>
  "load_model transformers_available loaded s =
     (if \<not> transformers_available then s
      else if loaded then s\<lparr>is_initialized := True\<rparr>
      else init_fallback_mode s)"

definition get_supported_languages :: "string list" where
  "get_supported_languages = [''python'', ''java'', ''javascript'', ''assembly'']"

subsection \<open>The rule-based translations\<close>

definition dq :: string where
  \<comment> \<open>the double quote\<close>
  "dq = [CHR 0x22]"

definition re_int_decl :: re where
  \<comment> \<open>\<^verbatim>\<open>int\s+(\w+)\s*=\s*(\d+);\<close>\<close>
  "re_int_decl = seqs [lit ''int'', plus ws, Group 1 (plus wd), Star ws, chr CHR ''='', Star ws,
     Group 2 (plus dgt), chr CHR '';'']"

definition re_float_decl :: re where
  \<comment> \<open>\<^verbatim>\<open>float\s+(\w+)\s*=\s*([\d.]+);\<close>\<close>
  "re_float_decl = seqs [lit ''float'', plus ws, Group 1 (plus wd), Star ws, chr CHR ''='', Star ws,
     Group 2 (plus (Sym (\<lambda>x. isdigit x \<or> x = CHR ''.''))), chr CHR '';'']"

definition re_double_decl :: re where
  \<comment> \<open>\<^verbatim>\<open>double\s+(\w+)\s*=\s*([\d.]+);\<close>\<close>
  "re_double_decl = seqs [lit ''double'', plus ws, Group 1 (plus wd), Star ws, chr CHR ''='', Star ws,
     Group 2 (plus (Sym (\<lambda>x. isdigit x \<or> x = CHR ''.''))), chr CHR '';'']"

definition re_char_decl :: re where
  \<comment> \<open>\<^verbatim>\<open>char\s+(\w+)\s*=\s*\'([^\']*)\';\<close>\<close>
  "re_char_decl = seqs [lit ''char'', plus ws, Group 1 (plus wd), Star ws, chr CHR ''='', Star ws,
     chr CHR 0x27, Group 2 (Star (noneof [CHR 0x27])), chr CHR 0x27, chr CHR '';'']"

definition re_bool_decl :: re where
  \<comment> \<open>\<^verbatim>\<open>bool\s+(\w+)\s*=\s*(true|false);\<close>\<close>
  "re_bool_decl = seqs [lit ''bool'', plus ws, Group 1 (plus wd), Star ws, chr CHR ''='', Star ws,
     Group 2 (Alt (lit ''true'') (lit ''false'')), chr CHR '';'']"

definition re_cout :: re where
  \<comment> \<open>\<^verbatim>\<open>cout\s*<<\s*(.*?);\<close>\<close>
  "re_cout = seqs [lit ''cout'', Star ws, lit ''<<'', Star ws, Group 1 (LazyStar dot), chr CHR '';'']"

definition re_cin :: re where
  \<comment> \<open>\<^verbatim>\<open>cin\s*>>\s*(\w+);\<close>\<close>
  "re_cin = seqs [lit ''cin'', Star ws, lit ''>>'', Star ws, Group 1 (plus wd), chr CHR '';'']"

definition cpp_to_python_fallback :: "string \<Rightarrow> string" where
  \<comment> \<open>As in the source, each of the declaration rules is applied to \<^verbatim>\<open>cpp_code\<close> and its
      result is assigned to \<^verbatim>\<open>code\<close>: only the last assignment reaches the I/O rules.\<close>
  "cpp_to_python_fallback cpp_code =
     (let code = re_sub re_int_decl [G 1, T '' = '', G 2] cpp_code;
          code = re_sub re_float_decl [G 1, T '' = '', G 2] cpp_code;
          code = re_sub re_double_decl [G 1, T '' = '', G 2] cpp_code;
          code = re_sub re_char_decl [G 1, T ('' = '' @ dq), G 2, T dq] cpp_code;
          code = re_sub re_bool_decl [G 1, T '' = '', G 2] cpp_code;
          code = re_sub re_cout [T ''print('', G 1, T '')''] code;
          code = re_sub re_cin [G 1, T ('' = input('' @ dq @ ''Enter ''), G 1, T ('': '' @ dq @ '')'')] code;
          code = re_sub (chr CHR '';'') [] code
      in ''# Fallback translation (limited functionality)'' @ [nl] @ code)"

definition re_int_semicolon :: re where
  \<comment> \<open>\<^verbatim>\<open>int\s+(\w+);\<close>\<close>
  "re_int_semicolon = seqs [lit ''int'', plus ws, Group 1 (plus wd), chr CHR '';'']"

definition cpp_to_java_fallback :: "string \<Rightarrow> string" where
  "cpp_to_java_fallback src_code =
     (let lines = split_lines (strip src_code);
          method_lines =
            fold (\<lambda>txt acc.
                    if contains ''int main()'' txt \<or> contains ''void main()'' txt
                    then acc @ [''    public static void main(String[] args) {'']
                    else if strip txt = ''return 0;'' then acc
                    else acc @ [''    '' @ txt])
                 lines [];
          method_code = join [nl] method_lines;
          method_code = re_sub re_int_semicolon [T ''int '', G 1, T '';''] method_code
      in ''public class TranslatedProgram {'' @ [nl] @ method_code @ [nl] @ ''}'')"

definition re_js_decl :: "string \<Rightarrow> re" where
  \<comment> \<open>\<^verbatim>\<open>int\s+(const\s+)?(\w+)\<close>, and the same for \<^verbatim>\<open>float\<close> and \<^verbatim>\<open>double\<close>\<close>
  "re_js_decl ty = seqs [lit ty, plus ws, opt (Group 1 (seqs [lit ''const'', plus ws])), Group 2 (plus wd)]"

definition cpp_to_javascript_fallback :: "string \<Rightarrow> string" where
  "cpp_to_javascript_fallback src_code =
     (let code = src_code;
          code = re_sub (re_js_decl ''int'') [T ''let '', G 2] code;
          code = re_sub (re_js_decl ''float'') [T ''let '', G 2] code;
          code = re_sub (re_js_decl ''double'') [T ''let '', G 2] code;
          code = re_sub re_cout [T ''console.log('', G 1, T '');''] code;
          code = re_sub re_cin [G 1, T ('' = prompt('' @ dq @ ''Enter value:'' @ dq @ '');'')] code
      in ''// Fallback JavaScript translation'' @ [nl] @ code)"

definition cpp_to_assembly_fallback :: "string \<Rightarrow> string" where
  "cpp_to_assembly_fallback src_code =
     ''; Fallback assembly translation'' @ [nl] @
     ''; Limited C++ to assembly conversion'' @ [nl] @
     ''; Original C++ code:'' @ [nl] @
     ''; '' @ src_code @ [nl] @
     ''section .text'' @ [nl] @
     ''    global _start'' @ [nl] @
     ''_start:'' @ [nl] @
     ''    ; Minimal assembly stub'' @ [nl] @
     ''    mov eax, 1      ; sys_exit'' @ [nl] @
     ''    mov ebx, 0      ; exit code 0'' @ [nl] @
     ''    int 0x80''"

definition fallback_translate :: "string \<Rightarrow> string \<Rightarrow> model \<Rightarrow> (py_error + string) \<times> model" where
  "fallback_translate source_code target_language s =
     (let s1 = set_confidence 0.6 s in
      if target_language = ''python'' then (Inr (cpp_to_python_fallback source_code), s1)
      else if target_language = ''java'' then (Inr (cpp_to_java_fallback source_code), s1)
      else if target_language = ''javascript'' then (Inr (cpp_to_javascript_fallback source_code), s1)
      else if target_language = ''assembly'' then (Inr (cpp_to_assembly_fallback source_code), s1)
      else (Inl (ValueError (''Unsupported target language: '' @ target_language)), s1))"

subsection \<open>The generative path\<close>

definition is_artifact_line :: "string \<Rightarrow> bool" where
  "is_artifact_line txt =
     list_ex (\<lambda>pattern. contains pattern (lower txt))
       [''you can also do this'', ''translation:'', ''here is the'', ''the following'',
        ''generated code'', ''this is the'', ''class function'', ''file = =tdout'']"

definition clean_translated_code :: "string \<Rightarrow> string" where
  "clean_translated_code code =
     join [nl]
       (fold (\<lambda>txt clean_lines.
                let l = strip txt in
                if is_artifact_line l then clean_lines
                else if list_ex (\<lambda>lang. contains lang (lower l))
                          [''c++:'', ''java:'', ''javascript:'', ''python:'', ''assembly:'']
                then clean_lines
                else if l \<noteq> [] \<and> \<not> startswith ''#'' l \<and> \<not> startswith ''//'' l
                then clean_lines @ [l]
                else clean_lines)
             (split_lines code) [])"

definition re_code_char :: re where
  \<comment> \<open>\<^verbatim>\<open>[=+\-*/();{}\[\]]\<close>\<close>
  "re_code_char = Sym (\<lambda>x. x \<in> set ''=+-*/();{}[]'')"

definition extract_code_like_content :: "string \<Rightarrow> string" where
  "extract_code_like_content text =
     join [nl]
       (take 50
          (fold (\<lambda>txt code_lines.
                   let l = strip txt in
                   if l \<noteq> [] \<and>
                      \<not> list_ex (\<lambda>phrase. contains phrase (lower l))
                          [''this is'', ''here is'', ''the following'', ''you can'', ''also do'',
                           ''translation'', ''convert'', ''transform'']
                   then (if found re_code_char l \<or>
                            list_ex (\<lambda>p. startswith p l)
                              [''def '', ''int '', ''float '', ''char '', ''bool '', ''if '', ''for '']
                         then code_lines @ [l] else code_lines)
                   else code_lines)
                (split_lines text) []))"

definition re_section :: "string \<Rightarrow> re" where
  \<comment> \<open>\<^verbatim>\<open>Name:\s*\n(.*?)(?=\n\n[A-Z]|\Z)\<close> under \<^verbatim>\<open>re.DOTALL | re.IGNORECASE\<close>\<close>
  "re_section name =
     ignorecase (seqs [lit name, chr CHR '':'', Star ws, chr nl, Group 1 (LazyStar dotall),
       Look (Alt (seqs [chr nl, chr nl, Sym isupper_ascii]) EndZ)])"

definition re_default_section :: "string \<Rightarrow> re" where
  \<comment> \<open>\<^verbatim>\<open>Name:\s*\n(.*?)\<close> under the same flags, for a name without regex operators\<close>
  "re_default_section name =
     ignorecase (seqs [lit name, chr CHR '':'', Star ws, chr nl, Group 1 (LazyStar dotall)])"

definition language_patterns :: "string \<Rightarrow> re list" where
  \<comment> \<open>The table of the source has the four languages; the default of the lookup is for
      another tag, which cannot reach this point from \<^verbatim>\<open>_ml_translate\<close>: the lookup of its
      prompt has raised \<^verbatim>\<open>KeyError\<close> before.\<close>
  "language_patterns target_language =
     (if target_language = ''python'' then [re_section ''Python'', re_section ''python'']
      else if target_language = ''java'' then [re_section ''Java'', re_section ''java'']
      else if target_language = ''javascript'' then [re_section ''JavaScript'', re_section ''javascript'']
      else if target_language = ''assembly'' then [re_section ''Assembly'', re_section ''assembly'']
      else [re_default_section (capitalize target_language)])"

fun first_section :: "re list \<Rightarrow> string \<Rightarrow> string option" where
  \<comment> \<open>the loop over the patterns: group 1 of the first pattern that matches\<close>
  "first_section [] text = None"
| "first_section (pattern # patterns) text =
     (case re_search pattern text of
        Some mt \<Rightarrow> Some (group (snd mt) 1)
      | None \<Rightarrow> first_section patterns text)"

fun after_first_marker :: "string list \<Rightarrow> string \<Rightarrow> string" where
  \<comment> \<open>the loop over \<^verbatim>\<open>prompt_end_markers\<close>\<close>
  "after_first_marker [] generated_text = generated_text"
| "after_first_marker (marker # markers) generated_text =
     (if contains marker generated_text
      then (case split_first marker generated_text of
              [a, b] \<Rightarrow> strip b
            | _ \<Rightarrow> after_first_marker markers generated_text)
      else after_first_marker markers generated_text)"

definition extract_translation :: "string \<Rightarrow> string \<Rightarrow> string" where
  "extract_translation generated_text target_language =
     (let prompt_end_markers =
            [''C++:'' @ [nl],
             [nl, nl] @ capitalize target_language @ '':'',
             [nl, nl] @ target_language @ '':''];
          cleaned_text = after_first_marker prompt_end_markers generated_text
      in case first_section (language_patterns target_language) cleaned_text of
           Some translated \<Rightarrow> clean_translated_code (strip translated)
         | None \<Rightarrow> extract_code_like_content cleaned_text)"

definition contains_obvious_artifacts :: "string \<Rightarrow> bool" where
  "contains_obvious_artifacts text =
     list_ex (\<lambda>indicator. contains indicator (lower text))
       [''file = =tdout'', ''translation:'', ''you can also do this'', ''class function'',
        ''this is the'', ''here is the'']"

definition translation_prompts :: "string \<Rightarrow> (string \<times> string) option" where
  \<comment> \<open>the prompt of a language: the text before and after \<^verbatim>\<open>{code}\<close>\<close>
  "translation_prompts target_language =
     (if target_language = ''python''
      then Some (''Translate the following C++ code to Python:'' @ [nl, nl] @ ''C++:'' @ [nl],
                 [nl, nl] @ ''Python:'' @ [nl])
      else if target_language = ''java''
      then Some (''Translate the following C++ code to Java:'' @ [nl, nl] @ ''C++:'' @ [nl],
                 [nl, nl] @ ''Java:'' @ [nl])
      else if target_language = ''javascript''
      then Some (''Translate the following C++ code to JavaScript:'' @ [nl, nl] @ ''C++:'' @ [nl],
                 [nl, nl] @ ''JavaScript:'' @ [nl])
      else if target_language = ''assembly''
      then Some (''Convert the following C++ code to x86 assembly:'' @ [nl, nl] @ ''C++:'' @ [nl],
                 [nl, nl] @ ''Assembly:'' @ [nl])
      else None)"

text \<open>
  The generative engine (tokenizer, \<^verbatim>\<open>model.generate\<close>, decoding) is outside the
  repository. It is a parameter: a function from the prompt to the decoded text, or to
  \<open>None\<close> when any of its steps raises.
\<close>

type_synonym engine = "string \<Rightarrow> string option"

definition ml_translate :: "engine \<Rightarrow> string \<Rightarrow> string \<Rightarrow> model \<Rightarrow> (py_error + string) \<times> model" where
  "ml_translate generate source_code target_language s =
     (case translation_prompts target_language of
        None \<Rightarrow> fallback_translate source_code target_language s
      | Some pr \<Rightarrow>
          (case generate (fst pr @ strip source_code @ snd pr) of
             None \<Rightarrow> fallback_translate source_code target_language s
           | Some generated_text \<Rightarrow>
               let translated = extract_translation generated_text target_language in
               if translated = [] \<or> length (strip translated) < 10
               then fallback_translate source_code target_language s
               else if contains_obvious_artifacts translated
               then fallback_translate source_code target_language s
               else (Inr translated, set_confidence 0.85 s)))"

definition translate :: "engine \<Rightarrow> string \<Rightarrow> string \<Rightarrow> model \<Rightarrow> (py_error + string) \<times> model" where
  \<comment> \<open>\<^verbatim>\<open>CodeGenModel.translate\<close>\<close>
  "translate generate source_code target_language s =
     (if \<not> is_initialized s
      then (Inl (RuntimeError ''Model not initialized. Call load_model() first.''), s)
      else
        let target_language = lower target_language in
        if target_language \<notin> set get_supported_languages
        then (Inl (ValueError (''Unsupported target language: '' @ target_language)), s)
        else if fallback_mode s then fallback_translate source_code target_language s
        else ml_translate generate source_code target_language s)"

datatype model_op =
    SetConfidence real
  | LoadModel bool bool
  | Translate engine string string


section \<open>The structural extractor (preprocessing/ast_processor.py)\<close>









subsection \<open>The exact parse of Python\<close>






subsection \<open>The heuristic scan\<close>




















section \<open>The normalizer (preprocessing/tokenizer.py)\<close>

function replace :: "string \<Rightarrow> string \<Rightarrow> string \<Rightarrow> string" where
  \<comment> \<open>\<^verbatim>\<open>s.replace(old, new)\<close> for a non-empty \<^verbatim>\<open>old\<close> (the source has no other use)\<close>
  "replace old new s =
     (if old = [] \<or> s = [] then s
      else if startswith old s then new @ replace old new (drop (length old) s)
      else hd s # replace old new (tl s))"
  by pat_completeness auto
termination
  by (relation "measure (\<lambda>(old, new, s). length s)") auto

declare replace.simps [simp del]

definition upper :: "string \<Rightarrow> string" where
  \<comment> \<open>\<^verbatim>\<open>s.upper()\<close>, on the code points whose upper case is one code point below 256; the
      others stay. None of them maps to a letter of the keywords tested below.\<close>
  "upper s = map upper_char s"

definition normalize_line_endings :: "string \<Rightarrow> string" where
  "normalize_line_endings code = replace [CHR 0x0D] [nl] (replace [CHR 0x0D, nl] [nl] code)"

definition re_blank_lines :: re where
  \<comment> \<open>\<^verbatim>\<open>\n\s*\n\s*\n+\<close>\<close>
  "re_blank_lines = seqs [chr nl, Star ws, chr nl, Star ws, plus (chr nl)]"

definition normalize_whitespace :: "string \<Rightarrow> string" where
  "normalize_whitespace code =
     (let code = replace [CHR 0x09] ''    '' code;
          code = re_sub re_blank_lines [T [nl, nl]] code
      in strip code)"

definition re_c_comment :: re where
  \<comment> \<open>\<^verbatim>\<open>//.*?$|/\*.*?\*/\<close> under \<^verbatim>\<open>re.MULTILINE | re.DOTALL\<close>\<close>
  "re_c_comment = Alt (seqs [lit ''//'', LazyStar dotall, EolM])
                      (seqs [lit ''/*'', LazyStar dotall, lit ''*/''])"

definition re_python_comment :: re where
  \<comment> \<open>\<^verbatim>\<open>#.*?$|""".*?"""|'''.*?'''\<close> under \<^verbatim>\<open>re.MULTILINE | re.DOTALL\<close>\<close>
  "re_python_comment =
     Alt (seqs [lit ''#'', LazyStar dotall, EolM])
         (Alt (seqs [lit [CHR 0x22, CHR 0x22, CHR 0x22], LazyStar dotall, lit [CHR 0x22, CHR 0x22, CHR 0x22]])
              (seqs [lit [CHR 0x27, CHR 0x27, CHR 0x27], LazyStar dotall, lit [CHR 0x27, CHR 0x27, CHR 0x27]]))"

definition comment_patterns :: "string \<Rightarrow> re option" where
  "comment_patterns language =
     (if language = ''cpp'' then Some re_c_comment
      else if language = ''python'' then Some re_python_comment
      else if language = ''java'' then Some re_c_comment
      else if language = ''javascript'' then Some re_c_comment
      else None)"

definition comment_replacer :: "string \<Rightarrow> caps \<Rightarrow> string" where
  "comment_replacer comment c =
     (if list_ex (\<lambda>keyword. contains keyword (upper comment))
           [''TODO'', ''FIXME'', ''IMPORTANT'', ''NOTE'']
      then comment
      else '' /* comment */ '')"

definition process_comments :: "string \<Rightarrow> string \<Rightarrow> string" where
  "process_comments code language =
     (case comment_patterns language of
        None \<Rightarrow> code
      | Some comment_regex \<Rightarrow> re_sub_fun comment_regex comment_replacer code)"

definition re_double_quoted :: re where
  \<comment> \<open>\<^verbatim>\<open>"([^"\\]|\\.)*"\<close>\<close>
  "re_double_quoted =
     seqs [chr CHR 0x22,
           Star (Group 1 (Alt (noneof [CHR 0x22, CHR 0x5C]) (seqs [chr CHR 0x5C, dot]))),
           chr CHR 0x22]"

definition re_single_quoted :: re where
  \<comment> \<open>\<^verbatim>\<open>'([^'\\]|\\.)*'\<close>\<close>
  "re_single_quoted =
     seqs [chr CHR 0x27,
           Star (Group 1 (Alt (noneof [CHR 0x27, CHR 0x5C]) (seqs [chr CHR 0x5C, dot]))),
           chr CHR 0x27]"

definition normalize_strings :: "string \<Rightarrow> string" where
  "normalize_strings code =
     fold (\<lambda>pattern code. re_sub pattern [T ''<STRING>''] code)
       [re_double_quoted, re_single_quoted] code"

record token =
  tok_line :: "int option"
  tok_type :: "string option"

definition enhance_with_tokens :: "string \<Rightarrow> token list \<Rightarrow> string" where
  \<comment> \<open>Tokens are dictionaries; \<^verbatim>\<open>token.get('line', 1)\<close> and \<^verbatim>\<open>t.get('type', 'UNKNOWN')\<close> give the
      defaults. The tokens of a line keep their order.\<close>
  "enhance_with_tokens code tokens =
     (let line_of = (\<lambda>t. case tok_line t of None \<Rightarrow> 1 | Some n \<Rightarrow> n);
          type_of = (\<lambda>t. case tok_type t of None \<Rightarrow> ''UNKNOWN'' | Some ty \<Rightarrow> ty);
          enhanced_lines =
            fold (\<lambda>(i, txt) acc.
                    let line_tokens = filter (\<lambda>t. line_of t = int i) tokens;
                        token_info = join '' '' (map type_of (take 5 line_tokens))
                    in if line_tokens \<noteq> [] \<and> token_info \<noteq> []
                       then acc @ [txt, ''// Tokens: '' @ token_info]
                       else acc @ [txt])
                 (enumerate1 (split_lines code)) []
      in join [nl] enhanced_lines)"

definition re_function_start :: re where
  \<comment> \<open>\<^verbatim>\<open>(\w+\s+\w+\s*\([^)]*\)\s*\{)\<close>\<close>
  "re_function_start =
     Group 1 (seqs [plus wd, plus ws, plus wd, Star ws, chr CHR ''('', Star (noneof '')''),
                    chr CHR '')'', Star ws, chr CHR ''{''])"

definition re_function_end :: re where
  \<comment> \<open>\<^verbatim>\<open>(\})\s*(?=\n|$)\<close>\<close>
  "re_function_end = seqs [Group 1 (chr CHR ''}''), Star ws, Look (Alt (chr nl) Eol)]"

definition re_class_start :: re where
  \<comment> \<open>\<^verbatim>\<open>(class\s+\w+\s*\{)\<close>\<close>
  "re_class_start = Group 1 (seqs [lit ''class'', plus ws, plus wd, Star ws, chr CHR ''{''])"

definition re_struct_start :: re where
  \<comment> \<open>\<^verbatim>\<open>(struct\s+\w+\s*\{)\<close>\<close>
  "re_struct_start = Group 1 (seqs [lit ''struct'', plus ws, plus wd, Star ws, chr CHR ''{''])"

definition re_include :: re where
  \<comment> \<open>\<^verbatim>\<open>#include\s*[<"][^>"]*[>"]\<close>\<close>
  "re_include =
     seqs [lit ''#include'', Star ws, Sym (\<lambda>x. x \<in> set [CHR ''<'', CHR 0x22]),
           Star (noneof [CHR ''>'', CHR 0x22]), Sym (\<lambda>x. x \<in> set [CHR ''>'', CHR 0x22])]"

definition add_structural_markers :: "string \<Rightarrow> string" where
  "add_structural_markers code =
     (let code = re_sub re_function_start [T ([nl] @ ''// FUNCTION_START'' @ [nl]), G 1] code;
          code = re_sub re_function_end [G 1, T ([nl] @ ''// FUNCTION_END'' @ [nl])] code;
          code = re_sub re_class_start [T ([nl] @ ''// CLASS_START'' @ [nl]), G 1] code;
          code = re_sub re_struct_start [T ([nl] @ ''// STRUCT_START'' @ [nl]), G 1] code;
          code = re_sub re_include [T (''// INCLUDE'' @ [nl]), G 0] code
      in code)"

definition preprocess :: "string \<Rightarrow> token list \<Rightarrow> string \<Rightarrow> string" where
  \<comment> \<open>\<^verbatim>\<open>CodeTokenizer.preprocess\<close>; no token list (\<^verbatim>\<open>None\<close>) is the empty list\<close>
  "preprocess source_code tokens source_language =
     (if source_code = [] \<or> strip source_code = [] then []
      else
        let code = normalize_line_endings source_code;
            code = normalize_whitespace code;
            code = process_comments code source_language;
            code = normalize_strings code;
            code = (if tokens \<noteq> [] then enhance_with_tokens code tokens else code);
            code = add_structural_markers code
        in if \<not> endswith [nl] code then code @ [nl] else code)"

section \<open>The request handler (app.py)\<close>












section \<open>Notions used by the properties\<close>

definition conf_ok :: "ValidationResult \<Rightarrow> bool" where
  "conf_ok r = (0 \<le> confidence r \<and> confidence r \<le> 1)"

definition tracked :: "ValidationResult \<Rightarrow> bool" where
  \<comment> \<open>the confidence is the one that the recorded errors and warnings account for\<close>
  "tracked r =
     (confidence r = max 0 (1 - 0.2 * real (length (errors r)) - 0.1 * real (length (warnings r))))"



definition no_syntax_error :: py_parser where
  \<comment> \<open>a parser that accepts every text\<close>
  "no_syntax_error code = None"

definition ten_lines :: string where
  \<comment> \<open>ten lines of assembly, three distinct ones\<close>
  "ten_lines = join [nl] [''nop'', ''nop'', ''nop'', ''nop'', ''ret'', ''ret'', ''ret'',
     ''hlt'', ''hlt'', ''hlt'']"

definition declaration_and_output :: string where
  \<comment> \<open>the two lines \<^verbatim>\<open>int x = 5;\<close> and \<^verbatim>\<open>cout << x;\<close>\<close>
  "declaration_and_output = ''int x = 5;'' @ [nl] @ ''cout << x;''"

definition decoded_with_artifact :: string where
  \<comment> \<open>a decoded generation for \<open>declaration_and_output\<close> and python: the prompt, then an
      artifact line, then two lines of code\<close>
  "decoded_with_artifact =
     ''Translate the following C++ code to Python:'' @ [nl, nl] @ ''C++:'' @ [nl] @
     declaration_and_output @ [nl, nl] @ ''Python:'' @ [nl] @
     ''here is the translation'' @ [nl] @ ''x = 5'' @ [nl] @ ''print(x)''"

definition loaded_model :: model where
  \<comment> \<open>the model once its weights are loaded: initialized, not in fallback mode\<close>
  "loaded_model = load_model True True (new_model True ''codegen-350m-multi'')"



definition bound :: "nat \<Rightarrow> kont \<Rightarrow> bool" where
  \<comment> \<open>every result of the continuation lies at least \<open>d\<close> characters further on\<close>
  "bound d k = (\<forall>p c res. k p c = Some res \<longrightarrow> length (snd (fst res)) + d \<le> length (snd p))"

primrec minlen :: "re \<Rightarrow> nat" where
  \<comment> \<open>a lower bound of the length of a match\<close>
  "minlen (Sym P) = 1"
| "minlen Eps = 0"
| "minlen (Seq a b) = minlen a + minlen b"
| "minlen (Alt a b) = min (minlen a) (minlen b)"
| "minlen (Star a) = 0"
| "minlen (LazyStar a) = 0"
| "minlen (Group n a) = minlen a"
| "minlen (Look a) = 0"
| "minlen Bol = 0"
| "minlen BolM = 0"
| "minlen Eol = 0"
| "minlen EolM = 0"
| "minlen EndZ = 0"
| "minlen WordB = 0"

definition lastn :: "nat \<Rightarrow> string \<Rightarrow> string" where
  \<comment> \<open>the last \<open>n\<close> characters, or the whole text when it is shorter\<close>
  "lastn n s = drop (length s - n) s"

definition no_final_newline :: "string \<Rightarrow> bool" where
  "no_final_newline s = (s \<noteq> [] \<longrightarrow> last s \<noteq> nl)"

definition newline_in_type :: "token list" where
  \<comment> \<open>one token on line 1 whose type text ends in two newlines\<close>
  "newline_in_type = [\<lparr>tok_line = Some 1, tok_type = Some (''X'' @ [nl, nl])\<rparr>]"







section \<open>Properties of the validator\<close>

lemma fold_invariant:
  assumes "P r" and "\<And>x r. P r \<Longrightarrow> P (f x r)"
  shows "P (fold f xs r)"
  using assms(1) by (induction xs arbitrary: r) (simp_all add: assms(2))

lemma conf_ok_fold:
  assumes "conf_ok r" and "\<And>x r. conf_ok r \<Longrightarrow> conf_ok (f x r)"
  shows "conf_ok (fold f xs r)"
  using assms by (rule fold_invariant)

lemma conf_ok_new_result: "conf_ok new_result"
  by (simp add: conf_ok_def new_result_def)

lemma conf_ok_add_issue: "conf_ok r \<Longrightarrow> conf_ok (add_issue lv msg lno r)"
  by (cases lv) (auto simp: conf_ok_def add_issue_def Let_def)

lemma conf_ok_add_suggestion: "conf_ok r \<Longrightarrow> conf_ok (add_suggestion s r)"
  by (simp add: conf_ok_def add_suggestion_def)

lemma conf_ok_basic: "conf_ok r \<Longrightarrow> conf_ok (validate_basic_structure code lang r)"
  unfolding validate_basic_structure_def Let_def
  by (auto intro!: conf_ok_fold conf_ok_add_issue simp: split_def)

lemma conf_ok_python: "conf_ok r \<Longrightarrow> conf_ok (validate_python py code r)"
  unfolding validate_python_def Let_def
  by (auto intro!: conf_ok_fold conf_ok_add_issue simp: split_def split: option.splits)

lemma conf_ok_c_like: "conf_ok r \<Longrightarrow> conf_ok (validate_c_like code lang r)"
proof -
  assume ok: "conf_ok r"
  let ?step = "(\<lambda>(i, txt) (bc, pc, r).
                    (bc + (count_char CHR ''{'' txt - count_char CHR ''}'' txt),
                     pc + (count_char CHR ''('' txt - count_char CHR '')'' txt),
                     if missing_semicolon txt
                     then add_issue WARNING ''Possible missing semicolon'' (Some i) r else r))"
  have "conf_ok (snd (snd (fold ?step xs (b, p, r))))" for xs b p
    by (rule fold_invariant [where P = "\<lambda>s. conf_ok (snd (snd s))"])
       (auto simp: ok split_def intro: conf_ok_add_issue)
  then show ?thesis
    unfolding validate_c_like_def Let_def
    by (auto simp: split_def intro!: conf_ok_add_issue)
qed

lemma conf_ok_assembly: "conf_ok r \<Longrightarrow> conf_ok (validate_assembly code r)"
  unfolding validate_assembly_def Let_def
  by (auto intro!: conf_ok_fold conf_ok_add_issue simp: split_def split: list.splits)

lemma conf_ok_consistency: "conf_ok r \<Longrightarrow> conf_ok (validate_consistency code lang si r)"
  unfolding validate_consistency_def Let_def
  by (auto intro!: conf_ok_fold conf_ok_add_issue split: option.splits)

lemma python_quality_fields:
  "confidence (assess_python_quality code r) = confidence r"
  "errors (assess_python_quality code r) = errors r"
  "warnings (assess_python_quality code r) = warnings r"
  by (simp_all add: assess_python_quality_def add_suggestion_def Let_def)

lemma quality_step_fields:
  "confidence (if b then add_suggestion s r else r) = confidence r"
  "errors (if b then add_suggestion s r else r) = errors r"
  "warnings (if b then add_suggestion s r else r) = warnings r"
  by (simp_all add: add_suggestion_def)

lemma aq_errors: "errors (assess_quality code lang r) = errors r"
  by (simp add: assess_quality_def Let_def python_quality_fields quality_step_fields add_issue_def)

lemma aq_warnings: "warnings (assess_quality code lang r) =
   (if high_repetition code
    then warnings r @ [\<lparr>message = ''High code repetition detected'', line = None, level = WARNING\<rparr>]
    else warnings r)"
  by (simp add: assess_quality_def Let_def python_quality_fields quality_step_fields add_issue_def)

lemma aq_confidence: "confidence (assess_quality code lang r) =
   (let c1 = (if very_short code then max 0.5 (confidence r - 0.1) else confidence r)
    in if high_repetition code then max 0.7 (max 0 (c1 - 0.1) - 0.1) else c1)"
  by (simp add: assess_quality_def Let_def python_quality_fields quality_step_fields add_issue_def)


lemma conf_ok_quality: "conf_ok r \<Longrightarrow> conf_ok (assess_quality code lang r)"
  by (auto simp: conf_ok_def aq_confidence Let_def)

text \<open>
  Claim C1. For every candidate text (the empty one included), every parser outcome, every
  source information and every target language tag, so for each of python, java,
  javascript and assembly, the confidence of the result of \<open>validate\<close> lies in [0.0, 1.0].
\<close>

theorem validate_confidence_in_unit_interval:
  "0 \<le> confidence (validate py_syntax code target_language si) \<and>
   confidence (validate py_syntax code target_language si) \<le> 1"
proof -
  have "conf_ok (validate py_syntax code target_language si)"
    unfolding validate_def Let_def
    by (auto intro!: conf_ok_quality conf_ok_consistency conf_ok_assembly conf_ok_c_like
          conf_ok_python conf_ok_basic conf_ok_add_issue conf_ok_new_result split: option.splits)
  then show ?thesis by (simp add: conf_ok_def)
qed




lemma tracked_add_suggestion: "tracked r \<Longrightarrow> tracked (add_suggestion s r)"
  by (simp add: tracked_def add_suggestion_def)








lemma dropWhile_all_or_head: "(\<forall>x \<in> set (dropWhile P xs). P x) \<Longrightarrow> dropWhile P xs = []"
  using hd_dropWhile [of P xs] by (cases "dropWhile P xs") auto

lemma strip_empty_iff: "strip s = [] \<longleftrightarrow> (\<forall>c \<in> set s. isspace c)"
proof
  assume "strip s = []"
  then have "\<forall>x \<in> set (dropWhile isspace (rev s)). isspace x"
    by (simp add: strip_def lstrip_def rstrip_def)
  then have "dropWhile isspace (rev s) = []" by (rule dropWhile_all_or_head)
  then show "\<forall>c \<in> set s. isspace c" by simp
next
  assume "\<forall>c \<in> set s. isspace c"
  then have "dropWhile isspace (rev s) = []" by simp
  then show "strip s = []"
    by (simp only: strip_def lstrip_def rstrip_def rev.simps dropWhile.simps)
qed

lemma set_split_char: "l \<in> set (split_char c s) \<Longrightarrow> set l \<subseteq> set s"
proof (induction s arbitrary: l)
  case Nil
  then show ?case by simp
next
  case (Cons a s)
  show ?case
  proof (cases "a = c")
    case True
    with Cons show ?thesis by auto
  next
    case False
    show ?thesis
    proof (cases "split_char c s")
      case Nil
      with False Cons.prems show ?thesis by simp
    next
      case (Cons w rest)
      with False Cons.prems have "l = a # w \<or> l \<in> set rest" by simp
      moreover have "set w \<subseteq> set s" using Cons.IH [of w] Cons by simp
      moreover have "l \<in> set rest \<Longrightarrow> set l \<subseteq> set s" using Cons.IH [of l] Cons by simp
      ultimately show ?thesis by auto
    qed
  qed
qed

lemma blank_no_lines: "strip code = [] \<Longrightarrow> non_empty_lines (split_lines code) = []"
  unfolding non_empty_lines_def split_lines_def filter_empty_conv
  using set_split_char by (fastforce simp: strip_empty_iff)



lemma errors_add_warning: "errors (add_issue WARNING msg lno r) = errors r"
  by (simp add: add_issue_def)

lemma errors_consistency: "errors (validate_consistency code lang s r) = errors r"
proof -
  have f: "errors (fold (\<lambda>name r'. if \<not> contains name code then add_issue WARNING (g name) None r' else r') xs r0)
           = errors r0" for g xs r0
    by (rule fold_invariant [where P = "\<lambda>x. errors x = errors r0"]) (simp_all add: errors_add_warning)
  show ?thesis
    unfolding validate_consistency_def Let_def
    by (simp add: f split: option.splits)
qed

lemma validate_errors_c_like:
  assumes "strip code \<noteq> []" and "lower lang \<in> set [''java'', ''javascript'']"
  shows "errors (validate py code lang si)
         = errors (validate_c_like code lang (validate_basic_structure code lang new_result))"
proof -
  have "code \<noteq> []" using assms(1) by (auto simp: strip_def lstrip_def rstrip_def)
  moreover have "lower lang \<noteq> ''python''" using assms(2) by auto
  ultimately show ?thesis
    using assms by (cases si) (simp_all add: validate_def Let_def aq_errors errors_consistency)
qed

lemma unmatched_brace_java:
  "errors (validate_c_like ''int main() { return 0'' ''java''
             (validate_basic_structure ''int main() { return 0'' ''java'' new_result))
   = [\<lparr>message = ''Unmatched braces: 1'', line = None, level = ERROR\<rparr>]"
  by code_simp

lemma unmatched_brace_javascript:
  "errors (validate_c_like ''int main() { return 0'' ''javascript''
             (validate_basic_structure ''int main() { return 0'' ''javascript'' new_result))
   = [\<lparr>message = ''Unmatched braces: 1'', line = None, level = ERROR\<rparr>]"
  by code_simp

lemma unmatched_brace_input: "strip ''int main() { return 0'' \<noteq> []"
  by code_simp

lemma c_like_tags: "lower ''java'' \<in> set [''java'', ''javascript'']"
  "lower ''javascript'' \<in> set [''java'', ''javascript'']"
  by code_simp+

text \<open>
  Claim C7. For the text \<^verbatim>\<open>int main() { return 0\<close>, validated for java or for javascript,
  the result has exactly one error, and its message gives the unmatched-brace count 1.
\<close>

theorem unmatched_brace_reported:
  "errors (validate py_syntax ''int main() { return 0'' ''java'' si)
     = [\<lparr>message = ''Unmatched braces: 1'', line = None, level = ERROR\<rparr>] \<and>
   errors (validate py_syntax ''int main() { return 0'' ''javascript'' si)
     = [\<lparr>message = ''Unmatched braces: 1'', line = None, level = ERROR\<rparr>]"
  by (simp only: validate_errors_c_like [OF unmatched_brace_input c_like_tags(1)]
        validate_errors_c_like [OF unmatched_brace_input c_like_tags(2)]
        unmatched_brace_java unmatched_brace_javascript)


text \<open>
  Claim C4 as stated fails. Ten lines of valid assembly with three distinct values get the
  repetition warning and nothing else, and the confidence is 0.8: the repetition step takes
  the maximum of 0.7 and the lowered value, so 0.7 is a lower bound, not an upper one.
\<close>

theorem repetition_counterexample:
  "length (non_empty_lines (split_lines ten_lines)) = 10 \<and>
   card (set (non_empty_lines (split_lines ten_lines))) = 3 \<and>
   confidence (validate no_syntax_error ten_lines ''assembly'' None) = 0.8 \<and>
   \<not> confidence (validate no_syntax_error ten_lines ''assembly'' None) \<le> 0.7"
  by code_simp


lemma validate_as_quality:
  assumes "strip code \<noteq> []"
  shows "\<exists>r. conf_ok r \<and> validate py code lang si = assess_quality code lang r"
proof -
  have ne: "code \<noteq> []" using assms by (auto simp: strip_def lstrip_def rstrip_def)
  let ?b = "validate_basic_structure code lang new_result"
  let ?l = "(if lower lang = ''python'' then validate_python py code ?b
             else if lower lang \<in> set [''java'', ''javascript''] then validate_c_like code lang ?b
             else if lower lang = ''assembly'' then validate_assembly code ?b
             else ?b)"
  let ?c = "(case si of None \<Rightarrow> ?l | Some s \<Rightarrow> validate_consistency code lang s ?l)"
  have b: "conf_ok ?b" by (intro conf_ok_basic conf_ok_new_result)
  then have l: "conf_ok ?l" by (simp add: conf_ok_python conf_ok_c_like conf_ok_assembly)
  then have c: "conf_ok ?c" by (cases si) (simp_all add: conf_ok_consistency)
  have "validate py code lang si = assess_quality code lang ?c"
    using assms ne by (simp add: validate_def Let_def)
  with c show ?thesis by blast
qed

text \<open>
  Claim C4, as amended. For every text with ten non-empty lines of three distinct values,
  every target language, parser outcome and source information, \<open>validate\<close> records the
  repetition warning and returns a confidence between 0.7 and 0.8.
\<close>

theorem repetition_warning_and_confidence:
  assumes "length (non_empty_lines (split_lines code)) = 10"
      and "card (set (non_empty_lines (split_lines code))) = 3"
  shows "''High code repetition detected''
           \<in> set (map message (warnings (validate py_syntax code target_language si))) \<and>
         0.7 \<le> confidence (validate py_syntax code target_language si) \<and>
         confidence (validate py_syntax code target_language si) \<le> 0.8"
proof -
  have rep: "high_repetition code"
    using assms by (simp add: high_repetition_def Let_def)
  have short: "\<not> very_short code"
    using assms by (simp add: very_short_def Let_def)
  have "strip code \<noteq> []"
    using assms(1) blank_no_lines [of code] by auto
  then obtain r where r: "conf_ok r"
      and v: "validate py_syntax code target_language si = assess_quality code target_language r"
    using validate_as_quality by blast
  from r have "0 \<le> confidence r" "confidence r \<le> 1" by (simp_all add: conf_ok_def)
  then have "0.7 \<le> max 0.7 (max 0 (confidence r - 0.1) - 0.1)"
        and "max 0.7 (max 0 (confidence r - 0.1) - 0.1) \<le> 0.8"
    by (simp_all add: max_def)
  then show ?thesis
    using rep short by (simp add: v aq_warnings aq_confidence Let_def)
qed

theorem repetition_warning_and_confidence_witness:
  "length (non_empty_lines (split_lines ten_lines)) = 10 \<and>
   card (set (non_empty_lines (split_lines ten_lines))) = 3 \<and>
   ''High code repetition detected''
     \<in> set (map message (warnings (validate no_syntax_error ten_lines ''assembly'' None))) \<and>
   0.7 \<le> confidence (validate no_syntax_error ten_lines ''assembly'' None) \<and>
   confidence (validate no_syntax_error ten_lines ''assembly'' None) \<le> 0.8"
proof -
  have h1: "length (non_empty_lines (split_lines ten_lines)) = 10" by code_simp
  have h2: "card (set (non_empty_lines (split_lines ten_lines))) = 3" by code_simp
  show ?thesis
    using h1 h2 repetition_warning_and_confidence [OF h1 h2, of no_syntax_error "''assembly''" None]
    by blast
qed

section \<open>Properties of the translation model\<close>

text \<open>
  Claim C3 fails on the code. For the input \<^verbatim>\<open>int x = 5;\<close>, \<^verbatim>\<open>cout << x;\<close> the rule-based
  Python translation keeps the typed declaration: its output is the header comment,
  \<^verbatim>\<open>int x = 5\<close> and \<^verbatim>\<open>print(x)\<close>. The declaration rule alone does give \<^verbatim>\<open>x = 5\<close>, but
  its result is overwritten before the I/O rules run.
\<close>

theorem python_fallback_keeps_declaration:
  "cpp_to_python_fallback declaration_and_output
     = ''# Fallback translation (limited functionality)'' @ [nl] @ ''int x = 5'' @ [nl] @ ''print(x)'' \<and>
   re_sub re_int_decl [G 1, T '' = '', G 2] declaration_and_output = ''x = 5'' @ [nl] @ ''cout << x;''"
  by code_simp

text \<open>
  Claim C6 as stated fails. A decoded text that contains the phrase
  \<^verbatim>\<open>here is the translation\<close> on a line of its own, followed by two lines of code, is
  accepted: the extraction drops the line with the phrase, the trust gate sees the two
  lines of code, and the caller gets them with confidence 0.85, not the rule-based output.
\<close>

theorem artifact_phrase_counterexample:
  "contains ''here is the translation'' decoded_with_artifact \<and>
   translate (\<lambda>prompt. Some decoded_with_artifact) declaration_and_output ''python'' loaded_model
     = (Inr (''x = 5'' @ [nl] @ ''print(x)''), loaded_model\<lparr>last_confidence := 0.85\<rparr>) \<and>
   fst (fallback_translate declaration_and_output ''python'' loaded_model)
     = Inr (''# Fallback translation (limited functionality)'' @ [nl] @ ''int x = 5'' @ [nl] @ ''print(x)'')"
  by code_simp

lemma set_confidence_range:
  "0 \<le> last_confidence (set_confidence c s) \<and> last_confidence (set_confidence c s) \<le> 1"
  by (simp add: set_confidence_def)










lemma startswith_iff: "startswith p s \<longleftrightarrow> (\<exists>b. s = p @ b)"
  by (induction p s rule: startswith.induct) auto

lemma contains_iff: "contains p s \<longleftrightarrow> (\<exists>a b. s = a @ p @ b)"
proof (induction s)
  case Nil
  then show ?case by auto
next
  case (Cons y ys)
  show ?case
  proof
    assume "contains p (y # ys)"
    then consider "startswith p (y # ys)" | "contains p ys" by auto
    then show "\<exists>a b. y # ys = a @ p @ b"
    proof cases
      case 1
      then obtain b where "y # ys = p @ b" by (auto simp: startswith_iff)
      then have "y # ys = [] @ p @ b" by simp
      then show ?thesis by blast
    next
      case 2
      then obtain a b where "ys = a @ p @ b" using Cons.IH by blast
      then have "y # ys = (y # a) @ p @ b" by simp
      then show ?thesis by blast
    qed
  next
    assume "\<exists>a b. y # ys = a @ p @ b"
    then obtain a b where ab: "y # ys = a @ p @ b" by blast
    show "contains p (y # ys)"
    proof (cases a)
      case Nil
      with ab have "startswith p (y # ys)" by (auto simp: startswith_iff)
      then show ?thesis by simp
    next
      case (Cons a0 as)
      with ab have "ys = as @ p @ b" by simp
      then have "contains p ys" using Cons.IH by blast
      then show ?thesis by simp
    qed
  qed
qed

lemma contains_prefix: "contains (p @ q) s \<Longrightarrow> contains p s"
  unfolding contains_iff by (metis append.assoc)

lemma infix_across_separator:
  assumes "u @ c # v = a @ p @ b" and "c \<notin> set p"
  shows "(\<exists>a' b'. u = a' @ p @ b') \<or> (\<exists>a' b'. v = a' @ p @ b')"
proof -
  from assms(1) obtain t where
    "(u = a @ t \<and> t @ c # v = p @ b) \<or> (u @ t = a \<and> c # v = t @ p @ b)"
    by (auto simp: append_eq_append_conv2)
  then show ?thesis
  proof (elim disjE conjE)
    assume 1: "u = a @ t" "t @ c # v = p @ b"
    from 1(2) obtain w where
      "(t = p @ w \<and> w @ c # v = b) \<or> (t @ w = p \<and> c # v = w @ b)"
      by (auto simp: append_eq_append_conv2)
    then show ?thesis
    proof (elim disjE conjE)
      assume "t = p @ w"
      with 1(1) show ?thesis by blast
    next
      assume 2: "t @ w = p" "c # v = w @ b"
      show ?thesis
      proof (cases w)
        case Nil
        with 2(1) 1(1) have "u = a @ p @ []" by simp
        then show ?thesis by blast
      next
        case (Cons c' w')
        with 2 have "c \<in> set p" by auto
        with assms(2) show ?thesis by simp
      qed
    qed
  next
    assume 3: "u @ t = a" "c # v = t @ p @ b"
    show ?thesis
    proof (cases t)
      case Nil
      show ?thesis
      proof (cases p)
        case Nil
        then have "u = u @ p @ []" by simp
        then show ?thesis by blast
      next
        case (Cons p0 ps)
        with 3(2) \<open>t = []\<close> have "c \<in> set p" by auto
        with assms(2) show ?thesis by simp
      qed
    next
      case (Cons t0 t')
      with 3(2) have "v = t' @ p @ b" by simp
      then show ?thesis by blast
    qed
  qed
qed

lemma contains_join:
  assumes "contains p (join [c] ls)" and "c \<notin> set p" and "p \<noteq> []"
  shows "\<exists>l \<in> set ls. contains p l"
  using assms(1)
proof (induction ls rule: induct_list012)
  case 1
  with assms(3) show ?case by (simp add: contains_iff)
next
  case (2 x)
  then show ?case by simp
next
  case (3 x y ys)
  then obtain a b where "x @ c # join [c] (y # ys) = a @ p @ b"
    by (auto simp: contains_iff)
  from infix_across_separator [OF this assms(2)]
  have "contains p x \<or> contains p (join [c] (y # ys))"
    by (simp add: contains_iff)
  with 3 show ?case by auto
qed

lemma lower_join: "lower (join [nl] ls) = join [nl] (map lower ls)"
proof (induction ls rule: induct_list012)
  case (3 x y ys)
  have "lower_char nl = nl" by code_simp
  with 3 show ?case by (simp add: lower_def)
qed (simp_all add: lower_def)

lemma nl_not_in_phrase: "nl \<notin> set ''here is the''"
  by code_simp

lemma no_phrase_in_joined_lines:
  assumes "\<forall>l \<in> set ls. \<not> contains ''here is the'' (lower l)"
  shows "\<not> contains ''here is the'' (lower (join [nl] ls))"
proof
  assume "contains ''here is the'' (lower (join [nl] ls))"
  then have "contains ''here is the'' (join [nl] (map lower ls))" by (simp add: lower_join)
  from contains_join [OF this nl_not_in_phrase]
  obtain l where "l \<in> set (map lower ls)" "contains ''here is the'' l" by blast
  with assms show False by auto
qed

lemma clean_translated_code_no_phrase:
  "\<not> contains ''here is the'' (lower (clean_translated_code code))"
proof -
  let ?Q = "\<lambda>acc. \<forall>l \<in> set acc. \<not> contains ''here is the'' (lower l)"
  have art: "\<not> is_artifact_line l \<Longrightarrow> \<not> contains ''here is the'' (lower l)" for l
    by (simp add: is_artifact_line_def)
  have "?Q (fold (\<lambda>txt clean_lines.
                let l = strip txt in
                if is_artifact_line l then clean_lines
                else if list_ex (\<lambda>lang. contains lang (lower l))
                          [''c++:'', ''java:'', ''javascript:'', ''python:'', ''assembly:'']
                then clean_lines
                else if l \<noteq> [] \<and> \<not> startswith ''#'' l \<and> \<not> startswith ''//'' l
                then clean_lines @ [l]
                else clean_lines) xs [])" for xs
    by (rule fold_invariant [where P = ?Q]) (auto simp: Let_def art)
  then show ?thesis
    unfolding clean_translated_code_def by (intro no_phrase_in_joined_lines)
qed

lemma here_is: "\<not> contains ''here is'' s \<Longrightarrow> \<not> contains ''here is the'' s"
  using contains_prefix [of "''here is''" "'' the''" s] by auto

lemma extract_code_like_content_no_phrase:
  "\<not> contains ''here is the'' (lower (extract_code_like_content text))"
proof -
  let ?Q = "\<lambda>acc. \<forall>l \<in> set acc. \<not> contains ''here is the'' (lower l)"
  have "?Q (fold (\<lambda>txt code_lines.
                   let l = strip txt in
                   if l \<noteq> [] \<and>
                      \<not> list_ex (\<lambda>phrase. contains phrase (lower l))
                          [''this is'', ''here is'', ''the following'', ''you can'', ''also do'',
                           ''translation'', ''convert'', ''transform'']
                   then (if found re_code_char l \<or>
                            list_ex (\<lambda>p. startswith p l)
                              [''def '', ''int '', ''float '', ''char '', ''bool '', ''if '', ''for '']
                         then code_lines @ [l] else code_lines)
                   else code_lines) xs [])" for xs
    by (rule fold_invariant [where P = ?Q]) (auto simp: Let_def here_is)
  then have "?Q (take 50 (fold (\<lambda>txt code_lines.
                   let l = strip txt in
                   if l \<noteq> [] \<and>
                      \<not> list_ex (\<lambda>phrase. contains phrase (lower l))
                          [''this is'', ''here is'', ''the following'', ''you can'', ''also do'',
                           ''translation'', ''convert'', ''transform'']
                   then (if found re_code_char l \<or>
                            list_ex (\<lambda>p. startswith p l)
                              [''def '', ''int '', ''float '', ''char '', ''bool '', ''if '', ''for '']
                         then code_lines @ [l] else code_lines)
                   else code_lines) xs []))" for xs
    by (meson in_set_takeD)
  then show ?thesis
    unfolding extract_code_like_content_def by (intro no_phrase_in_joined_lines)
qed

lemma extract_translation_no_phrase:
  "\<not> contains ''here is the'' (lower (extract_translation generated_text target_language))"
  unfolding extract_translation_def Let_def
  by (simp add: clean_translated_code_no_phrase extract_code_like_content_no_phrase split: option.splits)

text \<open>
  Claim C6, as amended. The trust gate reads the text that \<open>extract_translation\<close> isolates
  from the decoded output, never the decoded output itself. That text never contains the
  phrase \<^verbatim>\<open>here is the\<close> in any letter case, because extraction drops the lines that have
  it. The result is replaced by the rule-based output exactly when the extracted text is
  empty, shorter than 10 characters after trimming, or contains an artifact indicator;
  otherwise the extracted text is returned with confidence 0.85.
\<close>

theorem trust_gate_after_extraction:
  assumes "translation_prompts target_language = Some pr"
      and "generate (fst pr @ strip source_code @ snd pr) = Some generated_text"
  shows "\<not> contains ''here is the'' (lower (extract_translation generated_text target_language)) \<and>
         ml_translate generate source_code target_language s =
           (if extract_translation generated_text target_language = [] \<or>
               length (strip (extract_translation generated_text target_language)) < 10 \<or>
               contains_obvious_artifacts (extract_translation generated_text target_language)
            then fallback_translate source_code target_language s
            else (Inr (extract_translation generated_text target_language), set_confidence 0.85 s))"
  using assms by (simp add: ml_translate_def Let_def extract_translation_no_phrase)

theorem trust_gate_after_extraction_witness:
  "translation_prompts ''python''
     = Some (''Translate the following C++ code to Python:'' @ [nl, nl] @ ''C++:'' @ [nl],
             [nl, nl] @ ''Python:'' @ [nl]) \<and>
   \<not> contains ''here is the'' (lower (extract_translation decoded_with_artifact ''python'')) \<and>
   ml_translate (\<lambda>prompt. Some decoded_with_artifact) declaration_and_output ''python'' loaded_model
     = (Inr (extract_translation decoded_with_artifact ''python''), set_confidence 0.85 loaded_model)"
proof -
  have h1: "translation_prompts ''python''
     = Some (''Translate the following C++ code to Python:'' @ [nl, nl] @ ''C++:'' @ [nl],
             [nl, nl] @ ''Python:'' @ [nl])"
    by (simp add: translation_prompts_def)
  have g: "\<not> (extract_translation decoded_with_artifact ''python'' = [] \<or>
             length (strip (extract_translation decoded_with_artifact ''python'')) < 10 \<or>
             contains_obvious_artifacts (extract_translation decoded_with_artifact ''python''))"
    by code_simp
  show ?thesis
    using h1 g
      trust_gate_after_extraction [where generate = "\<lambda>prompt. Some decoded_with_artifact"
        and source_code = declaration_and_output and s = loaded_model
        and generated_text = decoded_with_artifact, OF h1]
    by simp
qed

section \<open>Properties of the structural extractor\<close>
















section \<open>Properties of the matcher\<close>

lemma boundI: "(\<And>p c res. k p c = Some res \<Longrightarrow> length (snd (fst res)) + d \<le> length (snd p)) \<Longrightarrow> bound d k"
  by (simp add: bound_def)

lemma boundD: "bound d k \<Longrightarrow> k p c = Some res \<Longrightarrow> length (snd (fst res)) + d \<le> length (snd p)"
  unfolding bound_def by blast

lemma bound_weaken: "bound d k \<Longrightarrow> d' \<le> d \<Longrightarrow> bound d' k"
  by (fastforce simp: bound_def)

lemma star_greedy_bound:
  assumes f: "\<And>k. bound d k \<Longrightarrow> bound d (f k)" and k: "bound d k"
  shows "bound d (star_greedy f n k)"
proof (induction n)
  case 0
  show ?case using k by (simp add: bound_def)
next
  case (Suc n)
  show ?case
  proof (rule boundI)
    fix p c res
    assume a: "star_greedy f (Suc n) k p c = Some res"
    let ?K = "\<lambda>p' c'. if length (snd p') < length (snd p) then star_greedy f n k p' c' else None"
    have "bound d ?K"
      using Suc by (auto simp: bound_def split: if_splits)
    then have fk: "bound d (f ?K)" by (rule f)
    from a show "length (snd (fst res)) + d \<le> length (snd p)"
      using boundD [OF fk, of p c res] boundD [OF k, of p c res]
      by (auto split: option.splits)
  qed
qed

lemma star_lazy_bound:
  assumes f: "\<And>k. bound d k \<Longrightarrow> bound d (f k)" and k: "bound d k"
  shows "bound d (star_lazy f n k)"
proof (induction n)
  case 0
  show ?case using k by (simp add: bound_def)
next
  case (Suc n)
  show ?case
  proof (rule boundI)
    fix p c res
    assume a: "star_lazy f (Suc n) k p c = Some res"
    let ?K = "\<lambda>p' c'. if length (snd p') < length (snd p) then star_lazy f n k p' c' else None"
    have "bound d ?K"
      using Suc by (auto simp: bound_def split: if_splits)
    then have fk: "bound d (f ?K)" by (rule f)
    from a show "length (snd (fst res)) + d \<le> length (snd p)"
      using boundD [OF fk, of p c res] boundD [OF k, of p c res]
      by (auto split: option.splits)
  qed
qed

lemma bound_guard: "bound d k \<Longrightarrow> bound d (\<lambda>p c. if b p then k p c else None)"
  unfolding bound_def by (auto split: if_splits)

lemma bound_sym:
  assumes "bound d k"
  shows "bound (Suc d) (m (Sym P) k)"
proof (rule boundI)
  fix p c res
  assume a: "m (Sym P) k p c = Some res"
  then obtain x xs where p: "snd p = x # xs" and k: "k (Some x, xs) c = Some res"
    by (auto split: list.splits if_splits)
  from boundD [OF assms k] p show "length (snd (fst res)) + Suc d \<le> length (snd p)" by simp
qed

lemma m_bound_same: "bound d k \<Longrightarrow> bound d (m r k)"
proof (induction r arbitrary: k d)
  case (Sym P)
  from bound_sym [OF Sym] show ?case by (rule bound_weaken) simp
next
  case Eps
  then show ?case by (simp add: bound_def)
next
  case (Seq a b)
  from Seq.IH(1) [OF Seq.IH(2) [OF Seq.prems]] show ?case by (simp add: bound_def)
next
  case (Alt a b)
  from Alt.IH(1) [OF Alt.prems] Alt.IH(2) [OF Alt.prems] show ?case
    by (auto simp: bound_def split: option.splits)
next
  case (Star a)
  show ?case
  proof (rule boundI)
    fix p c res assume "m (Star a) k p c = Some res"
    then have "star_greedy (m a) (length (snd p)) k p c = Some res" by simp
    with star_greedy_bound [of d "m a" k, OF Star.IH Star.prems]
    show "length (snd (fst res)) + d \<le> length (snd p)" by (auto dest: boundD)
  qed
next
  case (LazyStar a)
  show ?case
  proof (rule boundI)
    fix p c res assume "m (LazyStar a) k p c = Some res"
    then have "star_lazy (m a) (length (snd p)) k p c = Some res" by simp
    with star_lazy_bound [of d "m a" k, OF LazyStar.IH LazyStar.prems]
    show "length (snd (fst res)) + d \<le> length (snd p)" by (auto dest: boundD)
  qed
next
  case (Group n a)
  show ?case
  proof (rule boundI)
    fix p c res assume a: "m (Group n a) k p c = Some res"
    let ?K = "\<lambda>p' c'. k p' (c'(n \<mapsto> take (length (snd p) - length (snd p')) (snd p)))"
    have "bound d ?K" using Group.prems unfolding bound_def by blast
    moreover from a have "m a ?K p c = Some res" by (simp only: m.simps)
    ultimately show "length (snd (fst res)) + d \<le> length (snd p)"
      using boundD [OF Group.IH] by blast
  qed
next
  case (Look a)
  show ?case
  proof (rule boundI)
    fix p c res assume "m (Look a) k p c = Some res"
    then obtain r where "k p (snd r) = Some res" by (auto split: option.splits)
    from boundD [OF Look.prems this] show "length (snd (fst res)) + d \<le> length (snd p)" .
  qed
next
  case Bol
  from bound_guard [OF Bol, of "\<lambda>p. fst p = None"] show ?case by (simp add: bound_def)
next
  case BolM
  from bound_guard [OF BolM, of "\<lambda>p. fst p = None \<or> fst p = Some nl"] show ?case by (simp add: bound_def)
next
  case Eol
  from bound_guard [OF Eol, of "\<lambda>p. snd p = [] \<or> snd p = [nl]"] show ?case by (simp add: bound_def)
next
  case EolM
  from bound_guard [OF EolM, of "\<lambda>p. snd p = [] \<or> take 1 (snd p) = [nl]"] show ?case by (simp add: bound_def)
next
  case EndZ
  from bound_guard [OF EndZ, of "\<lambda>p. snd p = []"] show ?case by (simp add: bound_def)
next
  case WordB
  from bound_guard [OF WordB, of word_boundary] show ?case by (simp add: bound_def)
qed

lemma m_bound: "bound d k \<Longrightarrow> bound (d + minlen r) (m r k)"
proof (induction r arbitrary: k d)
  case (Sym P)
  from bound_sym [OF Sym, of P] show ?case by (simp del: m.simps)
next
  case (Seq a b)
  from Seq.IH(1) [OF Seq.IH(2) [OF Seq.prems]] show ?case
    by (simp add: add.commute add.left_commute)
next
  case (Alt a b)
  have "bound (d + min (minlen a) (minlen b)) (m a k)"
    by (rule bound_weaken [OF Alt.IH(1) [OF Alt.prems]]) simp
  moreover have "bound (d + min (minlen a) (minlen b)) (m b k)"
    by (rule bound_weaken [OF Alt.IH(2) [OF Alt.prems]]) simp
  ultimately show ?case
    by (auto simp: bound_def split: option.splits)
next
  case (Group n a)
  show ?case
  proof (rule boundI)
    fix p c res assume a: "m (Group n a) k p c = Some res"
    let ?K = "\<lambda>p' c'. k p' (c'(n \<mapsto> take (length (snd p) - length (snd p')) (snd p)))"
    have "bound d ?K" using Group.prems unfolding bound_def by blast
    moreover from a have "m a ?K p c = Some res" by (simp only: m.simps)
    ultimately have "length (snd (fst res)) + (d + minlen a) \<le> length (snd p)"
      using boundD [OF Group.IH] by blast
    then show "length (snd (fst res)) + (d + minlen (Group n a)) \<le> length (snd p)" by simp
  qed
qed (simp_all add: m_bound_same del: m.simps)

lemma bound_ret: "bound 0 (\<lambda>p' c'. Some (p', c'))"
  by (simp add: bound_def)

lemma re_match_length:
  assumes "re_match r (prev, s) = Some (n, c)"
  shows "minlen r \<le> n \<and> n \<le> length s"
proof -
  from assms obtain res where res: "m r (\<lambda>p' c'. Some (p', c')) (prev, s) Map.empty = Some res"
      and n: "n = length s - length (snd (fst res))"
    by (auto simp: re_match_def split: option.splits)
  from boundD [OF m_bound [OF bound_ret, of r] res] have "length (snd (fst res)) + minlen r \<le> length s"
    by simp
  with n show ?thesis by simp
qed

lemma m_from_k: "m r k p c = Some res \<Longrightarrow> \<exists>p' c'. k p' c' = Some res"
proof (induction r arbitrary: k p c)
  case (Sym P)
  then show ?case by (auto split: list.splits if_splits simp del: split_paired_Ex)
next
  case (Seq a b)
  from Seq.prems have "m a (m b k) p c = Some res" by simp
  from Seq.IH(1) [OF this] obtain p1 c1 where "m b k p1 c1 = Some res" by blast
  from Seq.IH(2) [OF this] show ?case .
next
  case (Alt a b)
  then show ?case by (auto split: option.splits)
next
  case (Star a)
  have "star_greedy (m a) n k p c = Some res \<Longrightarrow> \<exists>p' c'. k p' c' = Some res" for n p c
  proof (induction n arbitrary: p c)
    case 0
    then show ?case by (auto simp del: split_paired_Ex)
  next
    case (Suc n)
    let ?K = "\<lambda>p' c'. if length (snd p') < length (snd p) then star_greedy (m a) n k p' c' else None"
    from Suc.prems consider "m a ?K p c = Some res" | "k p c = Some res"
      by (auto split: option.splits)
    then show ?case
    proof cases
      case 1
      from Star.IH [OF 1] obtain p1 c1 where "?K p1 c1 = Some res" by blast
      then have "star_greedy (m a) n k p1 c1 = Some res" by (simp split: if_splits)
      then show ?thesis by (rule Suc.IH)
    next
      case 2
      then show ?thesis by blast
    qed
  qed
  with Star.prems show ?case by simp
next
  case (LazyStar a)
  have "star_lazy (m a) n k p c = Some res \<Longrightarrow> \<exists>p' c'. k p' c' = Some res" for n p c
  proof (induction n arbitrary: p c)
    case 0
    then show ?case by (auto simp del: split_paired_Ex)
  next
    case (Suc n)
    let ?K = "\<lambda>p' c'. if length (snd p') < length (snd p) then star_lazy (m a) n k p' c' else None"
    from Suc.prems consider "m a ?K p c = Some res" | "k p c = Some res"
      by (auto split: option.splits)
    then show ?case
    proof cases
      case 1
      from LazyStar.IH [OF 1] obtain p1 c1 where "?K p1 c1 = Some res" by blast
      then have "star_lazy (m a) n k p1 c1 = Some res" by (simp split: if_splits)
      then show ?thesis by (rule Suc.IH)
    next
      case 2
      then show ?thesis by blast
    qed
  qed
  with LazyStar.prems show ?case by simp
next
  case (Group n a)
  from Group.prems have "m a (\<lambda>p' c'. k p' (c'(n \<mapsto> take (length (snd p) - length (snd p')) (snd p)))) p c = Some res"
    by (simp only: m.simps)
  from Group.IH [OF this] show ?case by blast
next
  case (Look a)
  then show ?case by (auto split: option.splits simp del: split_paired_Ex)
qed (auto split: if_splits simp del: split_paired_Ex)

lemma group_is_match:
  assumes "re_match (Group g a) (prev, s) = Some (n, c)"
  shows "c g = Some (take n s)"
proof -
  from assms obtain res where
    res: "m a (\<lambda>p' c'. Some (p', c'(g \<mapsto> take (length s - length (snd p')) s))) (prev, s) Map.empty = Some res"
    and n: "n = length s - length (snd (fst res))" and c: "c = snd res"
    by (auto simp: re_match_def split: option.splits)
  from m_from_k [OF res] obtain p' c' where
    "res = (p', c'(g \<mapsto> take (length s - length (snd p')) s))" by auto
  with n c show ?thesis by simp
qed

lemma re_sub_from_unfold:
  "re_sub_from r f prev s =
     (case re_match r (prev, s) of
        Some nc \<Rightarrow>
          (if 0 < fst nc \<and> fst nc \<le> length s
           then f (take (fst nc) s) (snd nc) @
                re_sub_from r f (last_char prev (take (fst nc) s)) (drop (fst nc) s)
           else f [] (snd nc) @
                (case s of [] \<Rightarrow> [] | x # xs \<Rightarrow> x # re_sub_from r f (Some x) xs))
      | None \<Rightarrow> (case s of [] \<Rightarrow> [] | x # xs \<Rightarrow> x # re_sub_from r f (Some x) xs))"
  by (rule re_sub_from.simps)

lemma re_sub_from_cases:
  assumes "0 < minlen r"
  obtains (matched) n c where "re_match r (prev, s) = Some (n, c)" "minlen r \<le> n" "n \<le> length s"
      "re_sub_from r f prev s
         = f (take n s) c @ re_sub_from r f (last_char prev (take n s)) (drop n s)"
    | (finished) "s = []" "re_sub_from r f prev s = []"
    | (step) x xs where "s = x # xs" "re_match r (prev, s) = None"
      "re_sub_from r f prev s = x # re_sub_from r f (Some x) xs"
proof (cases "re_match r (prev, s)")
  case None
  show ?thesis
  proof (cases s)
    case Nil
    with None have "re_sub_from r f prev s = []"
      by (subst re_sub_from_unfold) simp
    with Nil show ?thesis by (rule finished)
  next
    case (Cons x xs)
    with None have "re_sub_from r f prev s = x # re_sub_from r f (Some x) xs"
      by (subst re_sub_from_unfold) simp
    with Cons None show ?thesis by (intro step [of x xs]) auto
  qed
next
  case (Some nc)
  obtain n c where nc: "nc = (n, c)" by (cases nc)
  with Some have mt: "re_match r (prev, s) = Some (n, c)" by simp
  from re_match_length [OF mt] assms have n: "minlen r \<le> n" "n \<le> length s" "0 < n" by auto
  with mt have "re_sub_from r f prev s
         = f (take n s) c @ re_sub_from r f (last_char prev (take n s)) (drop n s)"
    by (subst re_sub_from_unfold) simp
  with mt n show ?thesis by (intro matched [of n c]) auto
qed

lemma lastn_append_long: "n \<le> length b \<Longrightarrow> lastn n (a @ b) = lastn n b"
  by (simp add: lastn_def)

lemma lastn_length: "length (lastn n s) = min n (length s)"
  by (simp add: lastn_def)

lemma lastn_all: "length s \<le> n \<Longrightarrow> lastn n s = s"
  by (simp add: lastn_def)

lemma lastn_append_cong:
  assumes "lastn n a = lastn n b"
  shows "lastn n (u @ a) = lastn n (u @ b)"
proof (cases "n \<le> length a")
  case True
  with assms have "n \<le> length b"
    by (metis lastn_length min.absorb1 min.cobounded2)
  with True assms show ?thesis by (simp add: lastn_append_long)
next
  case False
  then have a: "lastn n a = a" by (simp add: lastn_all)
  have "length b < n"
  proof (rule ccontr)
    assume "\<not> length b < n"
    then have "length (lastn n b) = n" by (simp add: lastn_length)
    with assms a False show False by simp
  qed
  then have "lastn n b = b" by (simp add: lastn_all)
  with a assms show ?thesis by simp
qed

text \<open>A substitution that puts a text in front of each match, where a match has at least
  \<open>n\<close> characters, keeps the last \<open>n\<close> characters.\<close>

lemma re_sub_prefix_keeps_end:
  assumes len: "k \<le> minlen r" "0 < minlen r"
      and f: "\<And>prev s n c. re_match r (prev, s) = Some (n, c) \<Longrightarrow> f (take n s) c = F @ take n s"
  shows "lastn k (re_sub_from r f prev s) = lastn k s"
proof (induction "length s" arbitrary: prev s rule: less_induct)
  case less
  from len(2) show ?case
  proof (cases rule: re_sub_from_cases [where prev = prev and s = s and f = f])
    case (matched n c)
    let ?rest = "re_sub_from r f (last_char prev (take n s)) (drop n s)"
    from matched len have n: "0 < n" "k \<le> n" by auto
    with matched(3) have "length (drop n s) < length s" by simp
    then have ih: "lastn k ?rest = lastn k (drop n s)" by (rule less)
    have "re_sub_from r f prev s = F @ take n s @ ?rest"
      using matched(4) f [OF matched(1)] by simp
    then have "lastn k (re_sub_from r f prev s) = lastn k (take n s @ ?rest)"
      using n matched(3) by (simp add: lastn_append_long)
    also have "\<dots> = lastn k (take n s @ drop n s)"
      using ih by (rule lastn_append_cong)
    finally show ?thesis by simp
  next
    case finished
    then show ?thesis by simp
  next
    case (step x xs)
    then have "lastn k (re_sub_from r f (Some x) xs) = lastn k xs"
      using less [of xs "Some x"] by simp
    from lastn_append_cong [OF this, of "[x]"] step show ?thesis by simp
  qed
qed

lemma re_sub_nonempty:
  assumes len: "0 < minlen r"
      and f: "\<And>prev s n c. re_match r (prev, s) = Some (n, c) \<Longrightarrow> f (take n s) c \<noteq> []"
      and s: "s \<noteq> []"
  shows "re_sub_from r f prev s \<noteq> []"
  using len
proof (cases rule: re_sub_from_cases [where prev = prev and s = s and f = f])
  case (matched n c)
  with f [OF matched(1)] show ?thesis by simp
next
  case finished
  with s show ?thesis by simp
next
  case (step x xs)
  then show ?thesis by simp
qed

text \<open>A substitution whose replacement of a match that does not end in a newline does not
  end in one either, applied to a text that does not end in a newline.\<close>

lemma re_sub_no_final_newline:
  assumes len: "0 < minlen r"
      and f: "\<And>prev s n c. re_match r (prev, s) = Some (n, c) \<Longrightarrow>
                f (take n s) c \<noteq> [] \<and> (last (take n s) \<noteq> nl \<longrightarrow> last (f (take n s) c) \<noteq> nl)"
      and s: "no_final_newline s"
  shows "no_final_newline (re_sub_from r f prev s)"
  using s
proof (induction "length s" arbitrary: prev s rule: less_induct)
  case less
  have ne: "t \<noteq> [] \<Longrightarrow> re_sub_from r f p t \<noteq> []" for t p
    using re_sub_nonempty [OF len, of f t p] f by blast
  from len show ?case
  proof (cases rule: re_sub_from_cases [where prev = prev and s = s and f = f])
    case (matched n c)
    let ?rest = "re_sub_from r f (last_char prev (take n s)) (drop n s)"
    from matched len have n: "0 < n" by auto
    show ?thesis
    proof (cases "drop n s = []")
      case True
      with len have "?rest = []"
        by (cases rule: re_sub_from_cases [where prev = "last_char prev (take n s)" and s = "drop n s" and f = f]) (use len in auto)
      moreover from True matched(3) have "take n s = s" by simp
      moreover from n matched(3) True have "s \<noteq> []" by auto
      ultimately show ?thesis
        using matched(4) f [OF matched(1)] less.prems by (simp add: no_final_newline_def)
    next
      case False
      then have "last (drop n s) = last s" by (simp add: last_drop)
      with less.prems False have "no_final_newline (drop n s)"
        by (auto simp: no_final_newline_def)
      moreover from n matched(3) have "length (drop n s) < length s" by simp
      ultimately have "no_final_newline ?rest" by (rule less(1) [rotated])
      with ne [OF False] matched(4) show ?thesis by (simp add: no_final_newline_def)
    qed
  next
    case finished
    then show ?thesis by (simp add: no_final_newline_def)
  next
    case (step x xs)
    show ?thesis
    proof (cases "xs = []")
      case True
      with len have "re_sub_from r f (Some x) xs = []"
        by (cases rule: re_sub_from_cases [where prev = "Some x" and s = xs and f = f]) (use len in auto)
      with step True less.prems show ?thesis by (simp add: no_final_newline_def)
    next
      case False
      with step less.prems have "no_final_newline xs" by (simp add: no_final_newline_def)
      then have "no_final_newline (re_sub_from r f (Some x) xs)"
        using less(1) [of xs "Some x"] step by simp
      with ne [OF False] step show ?thesis by (simp add: no_final_newline_def)
    qed
  qed
qed

lemma re_sub_marker_end:
  assumes len: "0 < minlen r"
      and f: "\<And>prev s n c. re_match r (prev, s) = Some (n, c) \<Longrightarrow> \<exists>t. f (take n s) c = t @ [d, nl]"
      and s: "no_final_newline s"
  shows "no_final_newline (re_sub_from r f prev s) \<or> (\<exists>t. re_sub_from r f prev s = t @ [d, nl])"
  using s
proof (induction "length s" arbitrary: prev s rule: less_induct)
  case less
  have fne: "re_match r (p, t) = Some (n, c) \<Longrightarrow> f (take n t) c \<noteq> []" for p t n c
    using f [of p t n c] by auto
  have ne: "t \<noteq> [] \<Longrightarrow> re_sub_from r f p t \<noteq> []" for t p
    using re_sub_nonempty [OF len, of f t p] fne by blast
  have ext: "u \<noteq> [] \<Longrightarrow> no_final_newline u \<or> (\<exists>t. u = t @ [d, nl]) \<Longrightarrow>
             no_final_newline (v @ u) \<or> (\<exists>t. v @ u = t @ [d, nl])" for u v
  proof -
    assume u: "u \<noteq> []" and w: "no_final_newline u \<or> (\<exists>t. u = t @ [d, nl])"
    from w show ?thesis
    proof
      assume "no_final_newline u"
      with u show ?thesis by (simp add: no_final_newline_def)
    next
      assume "\<exists>t. u = t @ [d, nl]"
      then obtain t where "u = t @ [d, nl]" by blast
      then have "v @ u = (v @ t) @ [d, nl]" by simp
      then show ?thesis by blast
    qed
  qed
  from len show ?case
  proof (cases rule: re_sub_from_cases [where prev = prev and s = s and f = f])
    case (matched n c)
    let ?rest = "re_sub_from r f (last_char prev (take n s)) (drop n s)"
    from matched len have n: "0 < n" by auto
    show ?thesis
    proof (cases "drop n s = []")
      case True
      with len have "?rest = []"
        by (cases rule: re_sub_from_cases [where prev = "last_char prev (take n s)" and s = "drop n s" and f = f])
           (use len in auto)
      with matched(4) f [OF matched(1)] show ?thesis by simp
    next
      case False
      then have "last (drop n s) = last s" by simp
      with less.prems False have "no_final_newline (drop n s)"
        by (auto simp: no_final_newline_def)
      moreover from n matched(3) have "length (drop n s) < length s" by simp
      ultimately have "no_final_newline ?rest \<or> (\<exists>t. ?rest = t @ [d, nl])"
        by (rule less(1) [rotated])
      from ext [OF ne [OF False] this, of "f (take n s) c"] matched(4) show ?thesis by simp
    qed
  next
    case finished
    then show ?thesis by (simp add: no_final_newline_def)
  next
    case (step x xs)
    show ?thesis
    proof (cases "xs = []")
      case True
      with len have "re_sub_from r f (Some x) xs = []"
        by (cases rule: re_sub_from_cases [where prev = "Some x" and s = xs and f = f])
           (use len in auto)
      with step True less.prems show ?thesis by (simp add: no_final_newline_def)
    next
      case False
      with step less.prems have "no_final_newline xs" by (simp add: no_final_newline_def)
      then have "no_final_newline (re_sub_from r f (Some x) xs)
                 \<or> (\<exists>t. re_sub_from r f (Some x) xs = t @ [d, nl])"
        using less(1) [of xs "Some x"] step by simp
      from ext [OF ne [OF False] this, of "[x]"] step show ?thesis by simp
    qed
  qed
qed

section \<open>Properties of the normalizer\<close>

lemma isspace_nl: "isspace nl"
  by code_simp

lemma last_dropWhile_ne: "dropWhile P xs \<noteq> [] \<Longrightarrow> last (dropWhile P xs) = last xs"
  by (induction xs) (auto split: if_splits)

lemma strip_no_final_newline: "no_final_newline (strip s)"
proof (cases "strip s = []")
  case True
  then show ?thesis by (simp add: no_final_newline_def)
next
  case False
  let ?r = "dropWhile isspace (rev s)"
  have r: "?r \<noteq> []"
  proof
    assume "?r = []"
    then have "strip s = []"
      by (simp only: strip_def lstrip_def rstrip_def rev.simps dropWhile.simps)
    with False show False by simp
  qed
  then have h: "\<not> isspace (hd ?r)" by (rule hd_dropWhile)
  have s: "strip s = dropWhile isspace (rev ?r)"
    by (simp only: strip_def lstrip_def rstrip_def)
  from False s have "dropWhile isspace (rev ?r) \<noteq> []" by simp
  then have "last (dropWhile isspace (rev ?r)) = last (rev ?r)" by (rule last_dropWhile_ne)
  with s have "last (strip s) = last (rev ?r)" by simp
  also have "\<dots> = hd ?r" using r by (simp only: last_rev)
  finally show ?thesis using h isspace_nl by (auto simp: no_final_newline_def)
qed

lemma endswith_iff: "endswith p s \<longleftrightarrow> (\<exists>a. s = a @ p)"
proof -
  have "endswith p s \<longleftrightarrow> (\<exists>b. rev s = rev p @ b)" by (simp add: endswith_def startswith_iff)
  also have "\<dots> \<longleftrightarrow> (\<exists>a. s = a @ p)"
  proof
    assume "\<exists>b. rev s = rev p @ b"
    then obtain b where "rev s = rev p @ b" by blast
    then have "s = rev b @ p" by (metis rev_append rev_rev_ident)
    then show "\<exists>a. s = a @ p" by blast
  next
    assume "\<exists>a. s = a @ p"
    then obtain a where "s = a @ p" by blast
    then have "rev s = rev p @ rev a" by simp
    then show "\<exists>b. rev s = rev p @ b" by blast
  qed
  finally show ?thesis .
qed

lemma endswith_lastn: "endswith p s \<longleftrightarrow> lastn (length p) s = p"
proof
  assume "endswith p s"
  then obtain a where "s = a @ p" by (auto simp: endswith_iff)
  then show "lastn (length p) s = p" by (simp add: lastn_def)
next
  assume "lastn (length p) s = p"
  then have "drop (length s - length p) s = p" by (simp add: lastn_def)
  then have "s = take (length s - length p) s @ p"
    using append_take_drop_id [of "length s - length p" s] by simp
  then show "endswith p s" unfolding endswith_iff by blast
qed

lemma no_final_newline_lastn: "no_final_newline (lastn 2 s) = no_final_newline s"
proof (cases "s = []")
  case True
  then show ?thesis by (simp add: lastn_def)
next
  case False
  then have "length s - 2 < length s" by (cases s) auto
  then have "lastn 2 s \<noteq> []" "last (lastn 2 s) = last s"
    by (simp_all add: lastn_def)
  with False show ?thesis by (simp add: no_final_newline_def)
qed

lemma minlen_lit: "minlen (lit s) = length s"
  by (induction s) (simp_all add: lit_def chr_def)

lemma minlen_seqs: "minlen (seqs rs) = sum_list (map minlen rs)"
  by (induction rs rule: seqs.induct) simp_all

lemma minlen_patterns:
  "minlen re_c_comment = 2"
  "minlen re_python_comment = 1"
  "minlen re_double_quoted = 2"
  "minlen re_single_quoted = 2"
  "minlen re_function_start = 6"
  "minlen re_function_end = 1"
  "minlen re_class_start = 8"
  "minlen re_struct_start = 9"
  "minlen re_include = 10"
  by (simp_all add: re_c_comment_def re_python_comment_def re_double_quoted_def
        re_single_quoted_def re_function_start_def re_function_end_def re_class_start_def
        re_struct_start_def re_include_def minlen_seqs minlen_lit chr_def plus_def ws_def wd_def
        dotall_def dot_def noneof_def)

lemma matched_text:
  assumes "re_match r (prev, s) = Some (n, c)" and "0 < minlen r"
  shows "take n s \<noteq> []" and "no_final_newline s \<Longrightarrow> drop n s = [] \<Longrightarrow> last (take n s) \<noteq> nl"
  using re_match_length [OF assms(1)] assms(2) by (auto simp: no_final_newline_def)

lemma comment_replacer_end:
  assumes "mu \<noteq> []"
  shows "comment_replacer mu c \<noteq> [] \<and> (last mu \<noteq> nl \<longrightarrow> last (comment_replacer mu c) \<noteq> nl)"
proof -
  have "last '' /* comment */ '' \<noteq> nl" by code_simp
  with assms show ?thesis by (simp add: comment_replacer_def)
qed

lemma process_comments_end:
  assumes "no_final_newline s"
  shows "no_final_newline (process_comments s language)"
proof (cases "comment_patterns language")
  case None
  with assms show ?thesis by (simp add: process_comments_def)
next
  case (Some r)
  then have "r = re_c_comment \<or> r = re_python_comment"
    by (auto simp: comment_patterns_def split: if_splits)
  then have len: "0 < minlen r" by (auto simp: minlen_patterns)
  have "no_final_newline (re_sub_from r comment_replacer None s)"
  proof (rule re_sub_no_final_newline [OF len _ assms])
    fix prev t n c
    assume "re_match r (prev, t) = Some (n, c)"
    from matched_text(1) [OF this len] show "comment_replacer (take n t) c \<noteq> [] \<and>
        (last (take n t) \<noteq> nl \<longrightarrow> last (comment_replacer (take n t) c) \<noteq> nl)"
      by (rule comment_replacer_end)
  qed
  with Some show ?thesis by (simp add: process_comments_def re_sub_fun_def)
qed

lemma string_placeholder_end:
  assumes "0 < minlen r" and "no_final_newline s"
  shows "no_final_newline (re_sub r [T ''<STRING>''] s)"
proof -
  have "last ''<STRING>'' \<noteq> nl" by code_simp
  then have "no_final_newline (re_sub_from r (expand [T ''<STRING>'']) None s)"
    by (intro re_sub_no_final_newline [OF assms(1) _ assms(2)]) (simp add: expand_def)
  then show ?thesis by (simp add: re_sub_def re_sub_fun_def)
qed

lemma normalize_strings_end:
  assumes "no_final_newline s"
  shows "no_final_newline (normalize_strings s)"
  unfolding normalize_strings_def
  by (simp add: string_placeholder_end minlen_patterns assms)

lemma prefix_marker_end:
  assumes "2 \<le> minlen r"
  shows "lastn 2 (re_sub (Group 1 r) [T F, G 1] s) = lastn 2 s"
proof -
  have "lastn 2 (re_sub_from (Group 1 r) (expand [T F, G 1]) None s) = lastn 2 s"
  proof (rule re_sub_prefix_keeps_end [where F = F])
    show "2 \<le> minlen (Group 1 r)" "0 < minlen (Group 1 r)" using assms by simp_all
  next
    fix prev t n c
    assume "re_match (Group 1 r) (prev, t) = Some (n, c)"
    from group_is_match [OF this]
    show "expand [T F, G 1] (take n t) c = F @ take n t"
      by (simp add: expand_def group_def)
  qed
  then show ?thesis by (simp add: re_sub_def re_sub_fun_def)
qed

lemma include_marker_end: "lastn 2 (re_sub re_include [T F, G 0] s) = lastn 2 s"
proof -
  have "lastn 2 (re_sub_from re_include (expand [T F, G 0]) None s) = lastn 2 s"
    by (rule re_sub_prefix_keeps_end [where F = F]) (simp_all add: minlen_patterns expand_def)
  then show ?thesis by (simp add: re_sub_def re_sub_fun_def)
qed

lemma function_end_marker:
  assumes "no_final_newline s"
  shows "lastn 2 (re_sub re_function_end [G 1, T ([nl] @ ''// FUNCTION_END'' @ [nl])] s) \<noteq> [nl, nl]"
proof -
  let ?f = "expand [G 1, T ([nl] @ ''// FUNCTION_END'' @ [nl])]"
  let ?out = "re_sub_from re_function_end ?f None s"
  have d: "CHR ''D'' \<noteq> nl" by code_simp
  have "no_final_newline ?out \<or> (\<exists>t. ?out = t @ [CHR ''D'', nl])"
  proof (rule re_sub_marker_end [OF _ _ assms])
    show "0 < minlen re_function_end" by (simp add: minlen_patterns)
  next
    fix prev t n c
    have "?f (take n t) c = (group c 1 @ [nl] @ ''// FUNCTION_EN'') @ [CHR ''D'', nl]"
      by (simp add: expand_def)
    then show "\<exists>u. ?f (take n t) c = u @ [CHR ''D'', nl]" by blast
  qed
  then have "lastn 2 ?out \<noteq> [nl, nl]"
  proof
    assume "no_final_newline ?out"
    then have "no_final_newline (lastn 2 ?out)" by (simp add: no_final_newline_lastn)
    then show ?thesis by (auto simp: no_final_newline_def)
  next
    assume "\<exists>t. ?out = t @ [CHR ''D'', nl]"
    then obtain t where "?out = t @ [CHR ''D'', nl]" by blast
    then have "lastn 2 ?out = [CHR ''D'', nl]" by (simp add: lastn_def)
    with d show ?thesis by simp
  qed
  then show ?thesis by (simp add: re_sub_def re_sub_fun_def)
qed

lemma add_structural_markers_end:
  assumes "no_final_newline s"
  shows "\<not> endswith [nl, nl] (add_structural_markers s)"
proof -
  let ?c1 = "re_sub re_function_start [T ([nl] @ ''// FUNCTION_START'' @ [nl]), G 1] s"
  have "lastn 2 ?c1 = lastn 2 s"
    unfolding re_function_start_def
    by (rule prefix_marker_end) (simp add: minlen_seqs plus_def wd_def ws_def chr_def noneof_def)
  then have "no_final_newline ?c1"
    using assms no_final_newline_lastn [of ?c1] no_final_newline_lastn [of s] by simp
  then have c2: "lastn 2 (re_sub re_function_end [G 1, T ([nl] @ ''// FUNCTION_END'' @ [nl])] ?c1) \<noteq> [nl, nl]"
    by (rule function_end_marker)
  have c3: "lastn 2 (re_sub re_class_start [T F, G 1] t) = lastn 2 t" for F t
    unfolding re_class_start_def
    by (rule prefix_marker_end) (simp add: minlen_seqs minlen_lit plus_def wd_def ws_def chr_def)
  have c4: "lastn 2 (re_sub re_struct_start [T F, G 1] t) = lastn 2 t" for F t
    unfolding re_struct_start_def
    by (rule prefix_marker_end) (simp add: minlen_seqs minlen_lit plus_def wd_def ws_def chr_def)
  have "lastn 2 (add_structural_markers s)
        = lastn 2 (re_sub re_function_end [G 1, T ([nl] @ ''// FUNCTION_END'' @ [nl])] ?c1)"
    unfolding add_structural_markers_def Let_def
    by (simp only: include_marker_end c3 c4)
  with c2 have "lastn 2 (add_structural_markers s) \<noteq> [nl, nl]" by simp
  then show ?thesis using endswith_lastn [of "[nl, nl]" "add_structural_markers s"] by (simp add: numeral_2_eq_2)
qed

lemma final_newline_added:
  assumes "\<not> endswith [nl, nl] code"
  shows "endswith [nl] (if \<not> endswith [nl] code then code @ [nl] else code) \<and>
         \<not> endswith [nl, nl] (if \<not> endswith [nl] code then code @ [nl] else code)"
proof (cases "endswith [nl] code")
  case True
  with assms show ?thesis by simp
next
  case False
  have "endswith [nl] (code @ [nl])" unfolding endswith_iff by blast
  moreover have "\<not> endswith [nl, nl] (code @ [nl])"
  proof
    assume "endswith [nl, nl] (code @ [nl])"
    then obtain a where "code @ [nl] = a @ [nl, nl]" by (auto simp: endswith_iff)
    then have "code @ [nl] = (a @ [nl]) @ [nl]" by simp
    then have "code = a @ [nl]" by (simp only: append_same_eq)
    with False show False unfolding endswith_iff by blast
  qed
  ultimately show ?thesis using False by simp
qed

lemma final_newline_at_least:
  "endswith [nl] (if \<not> endswith [nl] code then code @ [nl] else code)"
  unfolding endswith_iff by auto

text \<open>
  Claim C9, as amended. \<open>preprocess\<close> is a function of its arguments (the source text, the
  token list and the language). For a text that is empty or all white space its output is
  the empty text. For every other text the output ends with a newline, and with exactly
  one when no token list is supplied.
\<close>

theorem preprocess_trailing_newline:
  "(strip source_code = [] \<longrightarrow> preprocess source_code tokens source_language = []) \<and>
   (strip source_code \<noteq> [] \<longrightarrow>
      endswith [nl] (preprocess source_code tokens source_language) \<and>
      (tokens = [] \<longrightarrow> \<not> endswith [nl, nl] (preprocess source_code tokens source_language)))"
proof (cases "strip source_code = []")
  case True
  then show ?thesis by (simp add: preprocess_def)
next
  case False
  then have ne: "source_code \<noteq> []" by (auto simp: strip_def lstrip_def rstrip_def)
  have at_least: "endswith [nl] (preprocess source_code tokens source_language)"
    using False ne unfolding preprocess_def Let_def
    by (simp only: if_False simp_thms final_newline_at_least)
  have exactly: "\<not> endswith [nl, nl] (preprocess source_code [] source_language)"
  proof -
    let ?c2 = "normalize_whitespace (normalize_line_endings source_code)"
    let ?c4 = "normalize_strings (process_comments ?c2 source_language)"
    have "no_final_newline ?c2"
      unfolding normalize_whitespace_def Let_def by (rule strip_no_final_newline)
    then have "no_final_newline ?c4"
      by (intro normalize_strings_end process_comments_end)
    then have "\<not> endswith [nl, nl] (add_structural_markers ?c4)"
      by (rule add_structural_markers_end)
    from final_newline_added [OF this] show ?thesis
      using False ne unfolding preprocess_def Let_def
      by (simp only: if_False simp_thms)
  qed
  from False at_least exactly show ?thesis by auto
qed

theorem preprocess_trailing_newline_witness:
  "strip ''x = 1;'' \<noteq> [] \<and>
   endswith [nl] (preprocess ''x = 1;'' [] ''cpp'') \<and>
   \<not> endswith [nl, nl] (preprocess ''x = 1;'' [] ''cpp'') \<and>
   strip ''  '' = [] \<and> preprocess ''  '' [] ''cpp'' = []"
proof -
  have h1: "strip ''x = 1;'' \<noteq> []" by code_simp
  have h2: "strip ''  '' = []" by code_simp
  show ?thesis
    using h1 h2 preprocess_trailing_newline [of "''x = 1;''" "[]" "''cpp''"]
      preprocess_trailing_newline [of "''  ''" "[]" "''cpp''"]
    by blast
qed

text \<open>
  Claim C9 as stated fails. The output for the empty text is the empty text, which has no
  trailing newline; and a token whose type text ends in newlines makes the output end
  with two of them.
\<close>

theorem trailing_newline_counterexample:
  "preprocess [] [] ''cpp'' = [] \<and>
   \<not> endswith [nl] (preprocess [] [] ''cpp'') \<and>
   endswith [nl, nl] (preprocess ''x'' newline_in_type ''cpp'')"
  by code_simp

section \<open>Properties of the request handler\<close>







end
